theory Spec2Isabelle
  imports Main "HOL-Library.Char_ord" "HOL-Library.List_Lexorder"
begin

section \<open>JavaScript values\<close>

text \<open>
  The values the poller handles are parsed JSON, plus \<open>undefined\<close> for a property that
  is not there. Numbers are the integers (record ids, and a timestamp given as a
  number); a number with a fraction is not represented. The program tests a number for
  zero, prints it and compares it. An object is its list of members in document order; a later duplicate
  of a key overrides an earlier one, as \<open>JSON.parse\<close> does.

  Strings are lists of 8-bit characters, compared lexicographically by character code,
  which is JavaScript's comparison of strings (by code unit) on such characters.
\<close>

datatype jsval =
    JUndefined
  | JNull
  | JBool bool
  | JNum int
  | JStr string
  | JArr "jsval list"
  | JObj "(string \<times> jsval) list"

text \<open>ToBoolean: what \<open>||\<close>, \<open>&&\<close> and \<open>!\<close> test.\<close>

fun truthy :: "jsval \<Rightarrow> bool" where
  "truthy JUndefined = False"
| "truthy JNull = False"
| "truthy (JBool b) = b"
| "truthy (JNum n) = (n \<noteq> 0)"
| "truthy (JStr s) = (s \<noteq> [])"
| "truthy (JArr xs) = True"
| "truthy (JObj kvs) = True"

text \<open>\<open>a || b\<close>: the left operand when it is truthy, else the right one.\<close>

definition js_or :: "jsval \<Rightarrow> jsval \<Rightarrow> jsval" where
  "js_or a b = (if truthy a then a else b)"

text \<open>An object's own member, \<open>undefined\<close> when the key is missing.\<close>

definition own :: "(string \<times> jsval) list \<Rightarrow> string \<Rightarrow> jsval" where
  "own kvs k = (case map_of (rev kvs) k of Some v \<Rightarrow> v | None \<Rightarrow> JUndefined)"

text \<open>
  \<open>v.k\<close> for the keys this program reads (\<open>opportunities\<close>, \<open>data\<close>, \<open>updated_at\<close>,
  \<open>updatedAt\<close>, \<open>updated\<close>, \<open>id\<close>), none of which a prototype supplies: a TypeError
  (\<open>None\<close>) on \<open>undefined\<close> and \<open>null\<close>, the own member on an object, \<open>undefined\<close> on
  every other value.
\<close>

fun member_js :: "jsval \<Rightarrow> string \<Rightarrow> jsval option" where
  "member_js JUndefined k = None"
| "member_js JNull k = None"
| "member_js (JObj kvs) k = Some (own kvs k)"
| "member_js v k = Some JUndefined"

text \<open>\<open>v?.k\<close>: \<open>undefined\<close> instead of the TypeError.\<close>

definition opt_member :: "jsval \<Rightarrow> string \<Rightarrow> jsval" where
  "opt_member v k = (case member_js v k of None \<Rightarrow> JUndefined | Some w \<Rightarrow> w)"

text \<open>Decimal digits of a natural number, and of an integer.\<close>

fun dec :: "nat \<Rightarrow> string" where
  "dec n = (if n < 10 then [''0123456789'' ! n] else dec (n div 10) @ [''0123456789'' ! (n mod 10)])"

declare dec.simps [simp del]

definition dec_int :: "int \<Rightarrow> string" where
  "dec_int i = (if i < 0 then CHR ''-'' # dec (nat (- i)) else dec (nat i))"

text \<open>
  ToString, as a template literal applies it. An integer in the safe range, up to
  \<open>2^53 - 1\<close> in magnitude, is a number of the program as it stands, printed in
  decimal digits. The conversion of a larger number (floating point) and of arrays and
  objects (ToPrimitive) is not embedded: \<open>None\<close>.
\<close>

fun js_toString :: "jsval \<Rightarrow> string option" where
  "js_toString JUndefined = Some ''undefined''"
| "js_toString JNull = Some ''null''"
| "js_toString (JBool b) = Some (if b then ''true'' else ''false'')"
| "js_toString (JNum n) = (if \<bar>n\<bar> \<le> 9007199254740991 then Some (dec_int n) else None)"
| "js_toString (JStr s) = Some s"
| "js_toString (JArr xs) = None"
| "js_toString (JObj kvs) = None"

text \<open>
  The iteration of \<open>for (const x of v)\<close>: the elements of an array, the characters of a
  string, and a TypeError (\<open>None\<close>) on a value that is not iterable. The TypeError is
  raised before the loop body runs for the first time.
\<close>

fun iterate :: "jsval \<Rightarrow> jsval list option" where
  "iterate (JArr xs) = Some xs"
| "iterate (JStr s) = Some (map (\<lambda>c. JStr [c]) s)"
| "iterate v = None"

section \<open>Environment and durable state\<close>

text \<open>
  What the process cannot decide itself is a parameter: the credentials, the upstream's
  answer to a request, the clock (\<open>clock env i\<close> is the i-th reading of \<open>Date.now()\<close>
  since the process started, in milliseconds), the rendering of an instant by
  \<open>toISOString\<close>, whether the i-th outbound POST succeeds, the URL check of the
  request schema, the answer of \<open>a > b\<close> where it rests on floating-point numbers
  (\<open>coerced_gt\<close>), and the text the database driver stores for a bound value that is
  not a string (\<open>sqlite_text\<close>, \<open>None\<close> when it refuses the value).
\<close>

record params =
  updated_since :: string
  per_page :: nat

record env =
  CURRENT_SUBDOMAIN :: "string option"
  CURRENT_API_KEY :: "string option"
  client_get :: "params \<Rightarrow> jsval option"
  clock :: "nat \<Rightarrow> int"
  toISOString :: "int \<Rightarrow> string"
  post_ok :: "nat \<Rightarrow> bool"
  url_valid :: "string \<Rightarrow> bool"
  coerced_gt :: "jsval \<Rightarrow> jsval \<Rightarrow> bool"
  sqlite_text :: "jsval \<Rightarrow> string option"

text \<open>The event envelope posted to the webhook.\<close>

record payload =
  source :: string
  event :: string
  occurred_at :: jsval
  idempotency_key :: string
  data :: jsval

text \<open>
  The three tables of \<open>state.db\<close>, each keyed by its primary key, the number of clock
  readings taken so far, and the outbound POSTs attempted so far (URL and body, oldest
  first; a POST that fails is listed too).
\<close>

record state =
  hooks :: "string \<rightharpoonup> string"
  cursors :: "string \<rightharpoonup> string"
  deliveries :: "string \<rightharpoonup> string"
  ticks :: nat
  posts :: "(string \<times> payload) list"

datatype error =
  ConfigError | FetchError | TypeError | DeliveryError | StoreError | OutsideModel

text \<open>
  \<open>StoreError\<close> is the exception of the database driver that refuses a bound value.
  \<open>OutsideModel\<close> is not an exception of the program. The model stops with it where the
  program goes on with a value whose conversion to a primitive or to a string is not
  embedded: a timestamp that is an array or an object, an id or a timestamp whose
  string form is not fixed here (an array, an object, a number beyond the safe range).
\<close>

subsection \<open>Helper functions of the store\<close>

definition getHook :: "state \<Rightarrow> string \<Rightarrow> string option" where
  "getHook st ev = (case hooks st ev of None \<Rightarrow> None | Some url \<Rightarrow> if url = [] then None else Some url)"

definition setHook :: "string \<Rightarrow> string \<Rightarrow> state \<Rightarrow> state" where
  "setHook ev url st = st\<lparr>hooks := (hooks st)(ev \<mapsto> url)\<rparr>"

definition getCursor :: "state \<Rightarrow> string \<Rightarrow> string \<Rightarrow> string" where
  "getCursor st name fallbackISO =
     (case cursors st name of None \<Rightarrow> fallbackISO | Some c \<Rightarrow> if c = [] then fallbackISO else c)"

definition setCursor :: "string \<Rightarrow> string \<Rightarrow> state \<Rightarrow> state" where
  "setCursor name cursorISO st = st\<lparr>cursors := (cursors st)(name \<mapsto> cursorISO)\<rparr>"

definition alreadyDelivered :: "state \<Rightarrow> string \<Rightarrow> bool" where
  "alreadyDelivered st key = (deliveries st key \<noteq> None)"

definition markDelivered :: "string \<Rightarrow> string \<Rightarrow> state \<Rightarrow> state" where
  "markDelivered key iso_time st =
     (case deliveries st key of
        None \<Rightarrow> st\<lparr>deliveries := (deliveries st)(key \<mapsto> iso_time)\<rparr>
      | Some d \<Rightarrow> st)"

text \<open>\<open>new Date().toISOString()\<close>: one reading of the clock.\<close>

definition now_iso :: "env \<Rightarrow> state \<Rightarrow> string \<times> state" where
  "now_iso env st = (toISOString env (clock env (ticks st)), st\<lparr>ticks := Suc (ticks st)\<rparr>)"

text \<open>\<open>new Date(Date.now() - 5 * 60 * 1000).toISOString()\<close>.\<close>

definition five_minutes_ago :: "env \<Rightarrow> state \<Rightarrow> string \<times> state" where
  "five_minutes_ago env st =
     (toISOString env (clock env (ticks st) - 5 * 60 * 1000), st\<lparr>ticks := Suc (ticks st)\<rparr>)"

subsection \<open>Client, filter and sink\<close>

definition currentClient :: "env \<Rightarrow> bool" where
  "currentClient env =
     (CURRENT_SUBDOMAIN env \<noteq> None \<and> CURRENT_SUBDOMAIN env \<noteq> Some [] \<and>
      CURRENT_API_KEY env \<noteq> None \<and> CURRENT_API_KEY env \<noteq> Some [])"

definition buildUpdatedSinceParams :: "string \<Rightarrow> params" where
  "buildUpdatedSinceParams updatedSinceISO = \<lparr>updated_since = updatedSinceISO, per_page = 100\<rparr>"

definition postToZapier :: "env \<Rightarrow> string \<Rightarrow> payload \<Rightarrow> state \<Rightarrow> (error + unit) \<times> state" where
  "postToZapier env eventName p st =
     (case getHook st eventName of
        None \<Rightarrow> (Inr (), st)
      | Some hookUrl \<Rightarrow>
          (if post_ok env (length (posts st))
           then (Inr (), st\<lparr>posts := posts st @ [(hookUrl, p)]\<rparr>)
           else (Inl DeliveryError, st\<lparr>posts := posts st @ [(hookUrl, p)]\<rparr>)))"

section \<open>Comparison of timestamps\<close>

text \<open>
  ToNumber, as far as the integers represent it. \<open>IsNaN\<close> is the number NaN;
  \<open>NotEmbedded\<close> stands for a value whose conversion is a floating-point number that
  is not fixed here (a string that may spell a fraction, an exponent, a sign, a
  prefixed literal, padding or \<open>Infinity\<close>; a number beyond the safe range), or that
  needs ToPrimitive (an array, an object).
\<close>

datatype tonum = IsNum int | IsNaN | NotEmbedded

definition is_digit :: "char \<Rightarrow> bool" where
  "is_digit c = (c \<in> set ''0123456789'')"

text \<open>The value of a digit is its place in the digits that \<open>dec\<close> prints with.\<close>

definition digit_val :: "char \<Rightarrow> int" where
  "digit_val c = int (length (takeWhile (\<lambda>d. d \<noteq> c) ''0123456789''))"

definition digits_val :: "string \<Rightarrow> int" where
  "digits_val s = foldl (\<lambda>a c. 10 * a + digit_val c) 0 s"

text \<open>
  The characters a string that converts to a number other than NaN is made of: digits,
  signs and the dot, the letters of hexadecimal digits, of the prefixes \<open>0x\<close>, \<open>0o\<close>,
  \<open>0b\<close>, of the exponent and of \<open>Infinity\<close>, and white space (here every character up
  to the space and from code 127 on). A string with any other character converts to
  NaN.
\<close>

definition numeric_char :: "char \<Rightarrow> bool" where
  "numeric_char c =
     (c \<in> set ''0123456789+-.abcdefABCDEFxXoOInity'' \<or> c \<le> CHR '' '' \<or> CHR 0x7F \<le> c)"

definition str_to_num :: "string \<Rightarrow> tonum" where
  "str_to_num s =
     (if s = [] then IsNum 0
      else if list_all is_digit s then
        (if digits_val s \<le> 9007199254740991 then IsNum (digits_val s) else NotEmbedded)
      else if list_ex (\<lambda>c. \<not> numeric_char c) s then IsNaN
      else NotEmbedded)"

fun to_num :: "jsval \<Rightarrow> tonum" where
  "to_num JUndefined = IsNaN"
| "to_num JNull = IsNum 0"
| "to_num (JBool b) = IsNum (if b then 1 else 0)"
| "to_num (JNum n) = (if \<bar>n\<bar> \<le> 9007199254740991 then IsNum n else NotEmbedded)"
| "to_num (JStr s) = str_to_num s"
| "to_num (JArr xs) = NotEmbedded"
| "to_num (JObj kvs) = NotEmbedded"

text \<open>
  \<open>a > b\<close>. Two strings are compared as strings. Otherwise both operands are converted
  to numbers: the comparison is false when one of them is NaN, it is the comparison of
  the integers when both are integers, and in the remaining cases it is what the
  environment's \<open>coerced_gt\<close> answers. In a run of the loop neither operand is an array
  or an object: \<open>advance\<close> below stops before it compares one, and the running maximum
  is the cursor read or a timestamp that was compared.
\<close>

fun num_gt :: "env \<Rightarrow> jsval \<Rightarrow> jsval \<Rightarrow> tonum \<Rightarrow> tonum \<Rightarrow> bool" where
  "num_gt env a b IsNaN t = False"
| "num_gt env a b t IsNaN = False"
| "num_gt env a b (IsNum i) (IsNum j) = (j < i)"
| "num_gt env a b t t' = coerced_gt env a b"

fun js_gt :: "env \<Rightarrow> jsval \<Rightarrow> jsval \<Rightarrow> bool" where
  "js_gt env (JStr x) (JStr y) = (y < x)"
| "js_gt env a b = num_gt env a b (to_num a) (to_num b)"

text \<open>
  What the store keeps in the column \<open>cursor\<close> (of type TEXT) for the value bound by
  \<open>setCursor\<close>: a string as it is, any other value as the database driver converts it
  (\<open>sqlite_text\<close>), \<open>None\<close> when the driver refuses the value with an exception.
\<close>

definition bind_text :: "env \<Rightarrow> jsval \<Rightarrow> string option" where
  "bind_text env v = (case v of JStr s \<Rightarrow> Some s | _ \<Rightarrow> sqlite_text env v)"

section \<open>The poller\<close>

text \<open>
  \<open>response.data?.opportunities || response.data?.data || response.data || []\<close>
\<close>

definition opportunities_of :: "jsval \<Rightarrow> jsval" where
  "opportunities_of d =
     js_or (opt_member d ''opportunities'') (js_or (opt_member d ''data'') (js_or d (JArr [])))"

text \<open>
  \<open>opp.updated_at || opp.updatedAt || opp.updated\<close>, a TypeError (\<open>None\<close>) when \<open>opp\<close>
  is \<open>null\<close> or \<open>undefined\<close>.
\<close>

definition updatedAt_of :: "jsval \<Rightarrow> jsval option" where
  "updatedAt_of opp =
     (case member_js opp ''updated_at'' of
        None \<Rightarrow> None
      | Some a \<Rightarrow>
          if truthy a then Some a
          else (case member_js opp ''updatedAt'' of
                  None \<Rightarrow> None
                | Some b \<Rightarrow> if truthy b then Some b else member_js opp ''updated''))"

text \<open>
  \<open>if (updatedAt && updatedAt > newestTimestamp) newestTimestamp = updatedAt\<close>;
  \<open>None\<close> where the timestamp is an array or an object, whose comparison starts with
  ToPrimitive.
\<close>

fun advance :: "env \<Rightarrow> jsval \<Rightarrow> jsval \<Rightarrow> jsval option" where
  "advance env (JArr xs) newest = None"
| "advance env (JObj kvs) newest = None"
| "advance env updatedAt newest =
     Some (if truthy updatedAt \<and> js_gt env updatedAt newest then updatedAt else newest)"

text \<open>
  \<open>updatedAt || new Date().toISOString()\<close>: the clock is read only when \<open>updatedAt\<close> is
  falsy.
\<close>

definition occurredAt_of :: "env \<Rightarrow> jsval \<Rightarrow> state \<Rightarrow> jsval \<times> state" where
  "occurredAt_of env updatedAt st =
     (if truthy updatedAt then (updatedAt, st)
      else (JStr (fst (now_iso env st)), snd (now_iso env st)))"

text \<open>The template literal \<open>opportunity:${opp.id}:${occurredAt}\<close>.\<close>

definition idempotencyKey :: "jsval \<Rightarrow> jsval \<Rightarrow> string option" where
  "idempotencyKey opp occurredAt =
     (case member_js opp ''id'' of
        None \<Rightarrow> None
      | Some i \<Rightarrow>
          (case js_toString i of
             None \<Rightarrow> None
           | Some s \<Rightarrow>
               (case js_toString occurredAt of
                  None \<Rightarrow> None
                | Some t \<Rightarrow> Some (''opportunity:'' @ s @ '':'' @ t))))"

text \<open>The object literal \<open>payload\<close> built for an unseen record.\<close>

definition envelope :: "jsval \<Rightarrow> jsval \<Rightarrow> string \<Rightarrow> payload" where
  "envelope opp occurredAt key =
     \<lparr>source = ''current-rms'', event = ''opportunity.updated'',
      occurred_at = occurredAt, idempotency_key = key, data = opp\<rparr>"

text \<open>
  One turn of the loop body for the record \<open>opp\<close>, with the running maximum
  \<open>newestTimestamp\<close>; on \<open>Inr\<close> the loop goes on with the new maximum.
\<close>

definition loop_body :: "env \<Rightarrow> jsval \<Rightarrow> jsval \<Rightarrow> state \<Rightarrow> (error + jsval) \<times> state" where
  "loop_body env opp newestTimestamp st =
     (case updatedAt_of opp of
        None \<Rightarrow> (Inl TypeError, st)
      | Some updatedAt \<Rightarrow>
          (case advance env updatedAt newestTimestamp of
             None \<Rightarrow> (Inl OutsideModel, st)
           | Some newest' \<Rightarrow>
               (case occurredAt_of env updatedAt st of
                  (occurredAt, st1) \<Rightarrow>
                    (case idempotencyKey opp occurredAt of
                       None \<Rightarrow> (Inl OutsideModel, st1)
                     | Some key \<Rightarrow>
                         if alreadyDelivered st1 key then (Inr newest', st1)
                         else
                           (case postToZapier env ''opportunity.updated''
                                   (envelope opp occurredAt key) st1 of
                              (Inl e, st2) \<Rightarrow> (Inl e, st2)
                            | (Inr u, st2) \<Rightarrow>
                                (Inr newest',
                                 markDelivered key (fst (now_iso env st2)) (snd (now_iso env st2))))))))"

text \<open>The \<open>for ... of\<close> loop over the records: it stops at the first exception.\<close>

fun for_of :: "env \<Rightarrow> jsval list \<Rightarrow> jsval \<Rightarrow> state \<Rightarrow> (error + jsval) \<times> state" where
  "for_of env [] newestTimestamp st = (Inr newestTimestamp, st)"
| "for_of env (opp # rest) newestTimestamp st =
     (case loop_body env opp newestTimestamp st of
        (Inl e, st') \<Rightarrow> (Inl e, st')
      | (Inr newest', st') \<Rightarrow> for_of env rest newest' st')"

definition cursorName :: string where
  "cursorName = ''opportunities.updated_at''"

text \<open>
  One polling cycle. The fallback argument of \<open>getCursor\<close> is evaluated before the
  call, so the clock is read whether or not a cursor is stored. The running maximum
  starts as the cursor read, a string, and is bound to the statement of \<open>setCursor\<close>
  as the loop leaves it.
\<close>

definition pollOpportunities :: "env \<Rightarrow> state \<Rightarrow> (error + unit) \<times> state" where
  "pollOpportunities env st =
     (if \<not> currentClient env then (Inl ConfigError, st)
      else
        (let fallback = fst (five_minutes_ago env st);
             st0 = snd (five_minutes_ago env st);
             since = getCursor st0 cursorName fallback
         in case client_get env (buildUpdatedSinceParams since) of
              None \<Rightarrow> (Inl FetchError, st0)
            | Some response_data \<Rightarrow>
                (case iterate (opportunities_of response_data) of
                   None \<Rightarrow> (Inl TypeError, st0)
                 | Some opportunities \<Rightarrow>
                     (case for_of env opportunities (JStr since) st0 of
                        (Inl e, st1) \<Rightarrow> (Inl e, st1)
                      | (Inr newestTimestamp, st1) \<Rightarrow>
                          (case bind_text env newestTimestamp of
                             None \<Rightarrow> (Inl StoreError, st1)
                           | Some cursorISO \<Rightarrow>
                               (Inr (), setCursor cursorName cursorISO st1))))))"

text \<open>
  The scheduled job: one cycle, its exception caught and logged. A list of
  environments stands for a sequence of ticks, one environment for each.
\<close>

definition cron_job :: "env \<Rightarrow> state \<Rightarrow> state" where
  "cron_job env st = snd (pollOpportunities env st)"

fun cron_jobs :: "env list \<Rightarrow> state \<Rightarrow> state" where
  "cron_jobs [] st = st"
| "cron_jobs (env # envs) st = cron_jobs envs (cron_job env st)"

text \<open>No cycle of the sequence stops at a point the model does not cover.\<close>

fun within_model :: "env list \<Rightarrow> state \<Rightarrow> bool" where
  "within_model [] st = True"
| "within_model (env # envs) st =
     (fst (pollOpportunities env st) \<noteq> Inl OutsideModel \<and> within_model envs (cron_job env st))"

section \<open>Observations of a run\<close>

text \<open>
  The timestamp a record contributes to the running maximum: its resolved \<open>updatedAt\<close>
  when that is a non-empty string.
\<close>

definition stamp_of :: "jsval \<Rightarrow> string option" where
  "stamp_of opp =
     (case updatedAt_of opp of
        Some (JStr s) \<Rightarrow> if s \<noteq> [] then Some s else None
      | _ \<Rightarrow> None)"

definition stamps :: "jsval list \<Rightarrow> string list" where
  "stamps opps = List.map_filter stamp_of opps"

text \<open>
  Every record of the batch resolves its \<open>updatedAt\<close> to a string or to a falsy value:
  no timestamp of the batch is a number, \<open>true\<close>, an array or an object.
\<close>

definition string_stamps :: "jsval list \<Rightarrow> bool" where
  "string_stamps opps =
     list_all (\<lambda>opp. case updatedAt_of opp of
                        None \<Rightarrow> True
                      | Some (JStr s) \<Rightarrow> True
                      | Some u \<Rightarrow> \<not> truthy u) opps"

text \<open>
  The running maximum after the records of a batch, from the comparisons alone:
  whether a record is delivered or skipped plays no part in it.
\<close>

fun running_max :: "env \<Rightarrow> jsval \<Rightarrow> jsval list \<Rightarrow> jsval option" where
  "running_max env newestTimestamp [] = Some newestTimestamp"
| "running_max env newestTimestamp (opp # rest) =
     (case updatedAt_of opp of
        None \<Rightarrow> None
      | Some updatedAt \<Rightarrow>
          (case advance env updatedAt newestTimestamp of
             None \<Rightarrow> None
           | Some newest' \<Rightarrow> running_max env newest' rest))"

text \<open>
  The idempotency key the loop body computes for \<open>opp\<close> when its turn starts in state
  \<open>st\<close> (for a record without a timestamp it holds the clock reading of that turn), and
  the timestamp \<open>occurredAt\<close> it resolves.
\<close>

definition body_occurredAt :: "env \<Rightarrow> jsval \<Rightarrow> state \<Rightarrow> jsval option" where
  "body_occurredAt env opp st =
     (case updatedAt_of opp of
        None \<Rightarrow> None
      | Some updatedAt \<Rightarrow> Some (fst (occurredAt_of env updatedAt st)))"

definition body_key :: "env \<Rightarrow> jsval \<Rightarrow> state \<Rightarrow> string option" where
  "body_key env opp st =
     (case body_occurredAt env opp st of
        None \<Rightarrow> None
      | Some occurredAt \<Rightarrow> idempotencyKey opp occurredAt)"

text \<open>
  The keys under which the loop processes the records of a batch, in order, up to the
  record at which it stops.
\<close>

fun keys_of :: "env \<Rightarrow> jsval list \<Rightarrow> jsval \<Rightarrow> state \<Rightarrow> string list" where
  "keys_of env [] newestTimestamp st = []"
| "keys_of env (opp # rest) newestTimestamp st =
     (case body_key env opp st of
        None \<Rightarrow> []
      | Some key \<Rightarrow>
          key # (case loop_body env opp newestTimestamp st of
                   (Inl e, st') \<Rightarrow> []
                 | (Inr newest', st') \<Rightarrow> keys_of env rest newest' st'))"

text \<open>The outbound POSTs attempted so far whose envelope carries the key \<open>key\<close>.\<close>

definition posts_for :: "string \<Rightarrow> state \<Rightarrow> (string \<times> payload) list" where
  "posts_for key st = filter (\<lambda>up. idempotency_key (snd up) = key) (posts st)"

text \<open>The start of a cycle: the cursor read, and the state after the clock reading.\<close>

definition since_of :: "env \<Rightarrow> state \<Rightarrow> string" where
  "since_of env st =
     getCursor (snd (five_minutes_ago env st)) cursorName (fst (five_minutes_ago env st))"

text \<open>The records a cycle started in \<open>st\<close> iterates over; none when it fails before the loop.\<close>

definition batch_of :: "env \<Rightarrow> state \<Rightarrow> jsval list" where
  "batch_of env st =
     (case client_get env (buildUpdatedSinceParams (since_of env st)) of
        None \<Rightarrow> []
      | Some d \<Rightarrow> (case iterate (opportunities_of d) of None \<Rightarrow> [] | Some opps \<Rightarrow> opps))"

text \<open>Every cycle of the sequence has a batch whose timestamps are strings.\<close>

fun string_stamped :: "env list \<Rightarrow> state \<Rightarrow> bool" where
  "string_stamped [] st = True"
| "string_stamped (env # envs) st =
     (string_stamps (batch_of env st) \<and> string_stamped envs (cron_job env st))"

section \<open>The registration endpoint\<close>

record response =
  status :: nat
  body :: jsval

text \<open>
  \<open>z.object({ event: z.string(), url: z.string().url() }).safeParse(body)\<close>: the body is
  an object, \<open>event\<close> a string, \<open>url\<close> a string that passes the URL check.
\<close>

definition safeParse :: "env \<Rightarrow> jsval \<Rightarrow> (string \<times> string) option" where
  "safeParse env b =
     (case b of
        JObj kvs \<Rightarrow>
          (case own kvs ''event'' of
             JStr e \<Rightarrow>
               (case own kvs ''url'' of
                  JStr u \<Rightarrow> if url_valid env u then Some (e, u) else None
                | _ \<Rightarrow> None)
           | _ \<Rightarrow> None)
      | _ \<Rightarrow> None)"

definition hooks_register :: "env \<Rightarrow> jsval \<Rightarrow> state \<Rightarrow> response \<times> state" where
  "hooks_register env b st =
     (case safeParse env b of
        None \<Rightarrow> (\<lparr>status = 400, body = JObj [(''error'', JStr ''Invalid request body'')]\<rparr>, st)
      | Some (e, u) \<Rightarrow> (\<lparr>status = 200, body = JObj [(''ok'', JBool True)]\<rparr>, setHook e u st))"

section \<open>The timestamp of a record, in the words of the specification\<close>

text \<open>
  The specification resolves the timestamp of a record as the first alias field that
  is present, in the order \<open>updated_at\<close>, \<open>updatedAt\<close>, \<open>updated\<close>, and as the current
  wall-clock time if none is present. The two definitions below follow these words,
  for comparison with \<open>updatedAt_of\<close> and \<open>occurredAt_of\<close>, which follow the code.
\<close>

definition present :: "jsval \<Rightarrow> string \<Rightarrow> bool" where
  "present opp k = (case opp of JObj kvs \<Rightarrow> k \<in> set (map fst kvs) | _ \<Rightarrow> False)"

definition spec_occurredAt :: "env \<Rightarrow> jsval \<Rightarrow> state \<Rightarrow> jsval" where
  "spec_occurredAt env opp st =
     (if present opp ''updated_at'' then opt_member opp ''updated_at''
      else if present opp ''updatedAt'' then opt_member opp ''updatedAt''
      else if present opp ''updated'' then opt_member opp ''updated''
      else JStr (toISOString env (clock env (ticks st))))"

section \<open>Example data\<close>

text \<open>
  A configured process whose upstream answers every request with the body \<open>d\<close> and whose
  i-th outbound POST succeeds when \<open>ok i\<close>, and whose database driver stores a number
  as a real in decimal notation and refuses every other value that is not a string; a
  store with one webhook and a cursor; and some records.
\<close>

definition example_env :: "jsval \<Rightarrow> (nat \<Rightarrow> bool) \<Rightarrow> env" where
  "example_env d ok =
     \<lparr>CURRENT_SUBDOMAIN = Some ''acme'', CURRENT_API_KEY = Some ''secret'',
      client_get = (\<lambda>p. Some d),
      clock = (\<lambda>i. 1717200000000 + 1000 * int i),
      toISOString = (\<lambda>t. ''2024-06-01T00:00:00.000Z''),
      post_ok = ok,
      url_valid = (\<lambda>u. take 8 u = ''https://''),
      coerced_gt = (\<lambda>a b. False),
      sqlite_text = (\<lambda>v. case v of JNum n \<Rightarrow> Some (dec_int n @ ''.0'') | _ \<Rightarrow> None)\<rparr>"

definition example_state :: state where
  "example_state =
     \<lparr>hooks = [''opportunity.updated'' \<mapsto> ''https://hooks.example/catch''],
      cursors = [''opportunities.updated_at'' \<mapsto> ''2024-01-01T00:00:00Z''],
      deliveries = Map.empty, ticks = 0, posts = []\<rparr>"

text \<open>The same store after the first two records have been relayed.\<close>

definition example_relayed :: state where
  "example_relayed =
     example_state\<lparr>deliveries :=
       [''opportunity:1:2024-01-02T00:00:00Z'' \<mapsto> ''2024-05-31T23:59:00.000Z'',
        ''opportunity:2:2024-01-03T00:00:00Z'' \<mapsto> ''2024-05-31T23:59:01.000Z'']\<rparr>"

definition opp1 :: jsval where
  "opp1 = JObj [(''id'', JNum 1), (''updated_at'', JStr ''2024-01-02T00:00:00Z'')]"

definition opp2 :: jsval where
  "opp2 = JObj [(''id'', JNum 2), (''updated_at'', JStr ''2024-01-03T00:00:00Z'')]"

text \<open>A record whose first alias is present and empty.\<close>

definition opp4 :: jsval where
  "opp4 = JObj [(''id'', JNum 4), (''updated_at'', JStr []),
                (''updatedAt'', JStr ''2024-05-01T00:00:00Z'')]"

definition opp3 :: jsval where
  "opp3 = JObj [(''id'', JNum 3), (''name'', JStr ''no timestamp'')]"

text \<open>A record whose timestamp is a number, and a store whose cursor is a numeric string.\<close>

definition opp5 :: jsval where
  "opp5 = JObj [(''id'', JNum 5), (''updated_at'', JNum 10)]"

definition example_numeric :: state where
  "example_numeric = example_state\<lparr>cursors := [''opportunities.updated_at'' \<mapsto> ''5'']\<rparr>"

text \<open>The store with the two records relayed and a cursor ahead of both.\<close>

definition example_ahead :: state where
  "example_ahead =
     example_relayed\<lparr>cursors := [''opportunities.updated_at'' \<mapsto> ''2024-02-01T00:00:00Z'']\<rparr>"

section \<open>Properties\<close>

subsection \<open>Comparison and the running maximum\<close>

lemma advance_None_iff:
  "advance env u n = None \<longleftrightarrow> (\<exists>xs. u = JArr xs) \<or> (\<exists>kvs. u = JObj kvs)"
  by (cases u) simp_all

lemma advance_falsy: "\<not> truthy u \<Longrightarrow> advance env u n = Some n"
  by (cases u) simp_all

lemma advance_strings:
  "advance env (JStr s) (JStr m) = Some (JStr (if s \<noteq> [] \<and> m < s then s else m))"
  by simp

lemma toString_advance: "js_toString u = Some t \<Longrightarrow> \<exists>n'. advance env u n = Some n'"
  by (cases u) simp_all

lemma occurredAt_of_cases:
  "occurredAt_of env u st = (occ, st1) \<Longrightarrow>
     (truthy u \<and> occ = u \<and> st1 = st) \<or>
     (\<not> truthy u \<and> occ = JStr (toISOString env (clock env (ticks st))) \<and>
        st1 = st\<lparr>ticks := Suc (ticks st)\<rparr>)"
  by (auto simp: occurredAt_of_def now_iso_def split: if_splits)

lemma occurredAt_of_tables:
  assumes "occurredAt_of env u st = (occ, st1)"
  shows "hooks st1 = hooks st" "cursors st1 = cursors st" "deliveries st1 = deliveries st"
    "posts st1 = posts st" "st1 = st \<or> st1 = st\<lparr>ticks := Suc (ticks st)\<rparr>"
  using occurredAt_of_cases [OF assms] by auto

lemma key_advance:
  assumes "occurredAt_of env u st = (occ, st1)" "idempotencyKey opp occ = Some key"
  shows "\<exists>n'. advance env u n = Some n'"
proof (cases "truthy u")
  case True
  with occurredAt_of_cases [OF assms(1)] have "occ = u" by auto
  with assms(2) obtain t where "js_toString u = Some t"
    by (auto simp: idempotencyKey_def split: option.splits)
  then show ?thesis by (rule toString_advance)
next
  case False
  then show ?thesis by (simp add: advance_falsy)
qed

lemma postToZapier_cases:
  "postToZapier env ev p st = (r, st') \<Longrightarrow>
     (getHook st ev = None \<and> r = Inr () \<and> st' = st) \<or>
     (\<exists>url. getHook st ev = Some url \<and> st' = st\<lparr>posts := posts st @ [(url, p)]\<rparr> \<and>
        r = (if post_ok env (length (posts st)) then Inr () else Inl DeliveryError))"
  by (auto simp: postToZapier_def split: option.splits if_splits)

subsection \<open>One turn of the loop body\<close>

lemma loop_body_Inr:
  assumes "loop_body env opp n st = (Inr n', st')"
  shows "\<exists>u occ st1 key.
    updatedAt_of opp = Some u \<and> advance env u n = Some n' \<and>
    occurredAt_of env u st = (occ, st1) \<and> idempotencyKey opp occ = Some key \<and>
    (if alreadyDelivered st1 key then st' = st1
     else \<exists>st2. postToZapier env ''opportunity.updated'' (envelope opp occ key) st1 = (Inr (), st2) \<and>
             st' = markDelivered key (fst (now_iso env st2)) (snd (now_iso env st2)))"
  using assms
  by (auto simp: loop_body_def split: option.splits prod.splits sum.splits if_splits)

lemma body_occurredAt_eq:
  "updatedAt_of opp = Some u \<Longrightarrow> occurredAt_of env u st = (occ, st1) \<Longrightarrow>
     body_occurredAt env opp st = Some occ"
  by (simp add: body_occurredAt_def)

lemma body_key_eq:
  "updatedAt_of opp = Some u \<Longrightarrow> occurredAt_of env u st = (occ, st1) \<Longrightarrow>
     body_key env opp st = idempotencyKey opp occ"
  by (simp add: body_key_def body_occurredAt_def)

lemma loop_body_keyed:
  assumes "updatedAt_of opp = Some u" "occurredAt_of env u st = (occ, st1)"
    "idempotencyKey opp occ = Some key" "advance env u n = Some n'"
  shows "loop_body env opp n st =
     (if alreadyDelivered st1 key then (Inr n', st1)
      else (case postToZapier env ''opportunity.updated'' (envelope opp occ key) st1 of
              (Inl e, st2) \<Rightarrow> (Inl e, st2)
            | (Inr u, st2) \<Rightarrow>
                (Inr n', markDelivered key (fst (now_iso env st2)) (snd (now_iso env st2)))))"
  using assms by (simp add: loop_body_def)

lemma loop_body_Inl:
  assumes "loop_body env opp n st = (Inl e, st')"
  shows "(e = DeliveryError \<and> (\<exists>occ st1 key url. body_occurredAt env opp st = Some occ \<and>
            body_key env opp st = Some key \<and> deliveries st key = None \<and>
            getHook st ''opportunity.updated'' = Some url \<and>
            \<not> post_ok env (length (posts st)) \<and>
            st' = st1\<lparr>posts := posts st @ [(url, envelope opp occ key)]\<rparr> \<and>
            (st1 = st \<or> st1 = st\<lparr>ticks := Suc (ticks st)\<rparr>)))
       \<or> (e \<noteq> DeliveryError \<and> (st' = st \<or> st' = st\<lparr>ticks := Suc (ticks st)\<rparr>))"
proof (cases "updatedAt_of opp")
  case None
  with assms show ?thesis by (simp add: loop_body_def)
next
  case (Some u)
  show ?thesis
  proof (cases "advance env u n")
    case None
    with Some assms show ?thesis by (simp add: loop_body_def)
  next
    case adv: (Some n1)
    obtain oc st1 where occ: "occurredAt_of env u st = (oc, st1)" by (cases "occurredAt_of env u st")
    note tab = occurredAt_of_tables [OF occ]
    show ?thesis
    proof (cases "idempotencyKey opp oc")
      case None
      with Some adv occ assms tab(5) show ?thesis by (auto simp: loop_body_def)
    next
      case key: (Some k)
      have bo: "body_occurredAt env opp st = Some oc"
        using body_occurredAt_eq [OF Some occ] by simp
      have bk: "body_key env opp st = Some k"
        using body_key_eq [OF Some occ] key by simp
      have nd: "\<not> alreadyDelivered st1 k"
        using assms loop_body_keyed [OF Some occ key adv] by auto
      obtain r2 st2 where pz: "postToZapier env ''opportunity.updated'' (envelope opp oc k) st1 = (r2, st2)"
        by (cases "postToZapier env ''opportunity.updated'' (envelope opp oc k) st1")
      have r2: "r2 = Inl e" "st2 = st'"
        using assms loop_body_keyed [OF Some occ key adv] nd pz
        by (auto split: sum.splits)
      from postToZapier_cases [OF pz] r2 obtain url where
        u: "getHook st1 ''opportunity.updated'' = Some url"
           "st' = st1\<lparr>posts := posts st1 @ [(url, envelope opp oc k)]\<rparr>"
           "\<not> post_ok env (length (posts st1))" "e = DeliveryError"
        by (auto split: if_splits)
      have "getHook st ''opportunity.updated'' = Some url"
        using u(1) tab(1) by (simp add: getHook_def)
      moreover have "deliveries st k = None"
        using nd tab(3) by (simp add: alreadyDelivered_def)
      ultimately show ?thesis
        using bo bk u tab(4,5) by auto
    qed
  qed
qed

lemma loop_body_advance:
  "loop_body env opp n st = (Inr n', st') \<Longrightarrow>
     \<exists>u. updatedAt_of opp = Some u \<and> advance env u n = Some n'"
  by (drule loop_body_Inr) auto

lemma loop_body_hooks: "loop_body env opp n st = (r, st') \<Longrightarrow> hooks st' = hooks st"
  by (auto simp: loop_body_def markDelivered_def now_iso_def
      dest!: occurredAt_of_cases postToZapier_cases
      split: option.splits prod.splits sum.splits if_splits)

lemma loop_body_cursors: "loop_body env opp n st = (r, st') \<Longrightarrow> cursors st' = cursors st"
  by (auto simp: loop_body_def markDelivered_def now_iso_def
      dest!: occurredAt_of_cases postToZapier_cases
      split: option.splits prod.splits sum.splits if_splits)

lemma loop_body_deliveries_keep:
  "loop_body env opp n st = (r, st') \<Longrightarrow> deliveries st k = Some d \<Longrightarrow> deliveries st' k = Some d"
  by (auto simp: loop_body_def markDelivered_def now_iso_def
      dest!: occurredAt_of_cases postToZapier_cases
      split: option.splits prod.splits sum.splits if_splits)

lemma loop_body_Inl_deliveries:
  "loop_body env opp n st = (Inl e, st') \<Longrightarrow> deliveries st' = deliveries st"
  by (drule loop_body_Inl) auto

lemma loop_body_Inr_dom:
  assumes "loop_body env opp n st = (Inr n', st')"
  shows "\<exists>key. body_key env opp st = Some key \<and> dom (deliveries st') = insert key (dom (deliveries st))"
proof -
  from loop_body_Inr [OF assms] obtain u occ st1 key where
    a: "updatedAt_of opp = Some u" "occurredAt_of env u st = (occ, st1)"
       "idempotencyKey opp occ = Some key"
       "if alreadyDelivered st1 key then st' = st1
        else \<exists>st2. postToZapier env ''opportunity.updated'' (envelope opp occ key) st1 = (Inr (), st2) \<and>
             st' = markDelivered key (fst (now_iso env st2)) (snd (now_iso env st2))"
    by blast
  note tab = occurredAt_of_tables [OF a(2)]
  have bk: "body_key env opp st = Some key" using body_key_eq [OF a(1,2)] a(3) by simp
  have "dom (deliveries st') = insert key (dom (deliveries st))"
  proof (cases "alreadyDelivered st1 key")
    case True
    with a(4) tab(3) show ?thesis by (auto simp: alreadyDelivered_def)
  next
    case False
    with a(4) obtain st2 where
      p: "postToZapier env ''opportunity.updated'' (envelope opp occ key) st1 = (Inr (), st2)"
         "st' = markDelivered key (fst (now_iso env st2)) (snd (now_iso env st2))"
      by auto
    from postToZapier_cases [OF p(1)] have "deliveries st2 = deliveries st1" by auto
    with p(2) tab(3) show ?thesis
      by (auto simp: markDelivered_def now_iso_def split: option.splits)
  qed
  with bk show ?thesis by blast
qed


subsection \<open>The loop\<close>

lemma for_of_append:
  "for_of env (xs @ ys) n st =
     (case for_of env xs n st of (Inl e, st') \<Rightarrow> (Inl e, st') | (Inr n', st') \<Rightarrow> for_of env ys n' st')"
  by (induction xs arbitrary: n st) (auto split: prod.splits sum.splits)

lemma for_of_hooks: "for_of env xs n st = (r, st') \<Longrightarrow> hooks st' = hooks st"
proof (induction xs arbitrary: n st)
  case Nil
  then show ?case by simp
next
  case (Cons x xs)
  obtain r1 st1 where b: "loop_body env x n st = (r1, st1)" by (cases "loop_body env x n st")
  with Cons show ?case
    by (cases r1) (auto dest: loop_body_hooks)
qed

lemma for_of_cursors: "for_of env xs n st = (r, st') \<Longrightarrow> cursors st' = cursors st"
proof (induction xs arbitrary: n st)
  case Nil
  then show ?case by simp
next
  case (Cons x xs)
  obtain r1 st1 where b: "loop_body env x n st = (r1, st1)" by (cases "loop_body env x n st")
  with Cons show ?case
    by (cases r1) (auto dest: loop_body_cursors)
qed

lemma for_of_deliveries_keep:
  "for_of env xs n st = (r, st') \<Longrightarrow> deliveries st k = Some d \<Longrightarrow> deliveries st' k = Some d"
proof (induction xs arbitrary: n st)
  case Nil
  then show ?case by simp
next
  case (Cons x xs)
  obtain r1 st1 where b: "loop_body env x n st = (r1, st1)" by (cases "loop_body env x n st")
  with Cons show ?case
    by (cases r1) (auto dest: loop_body_deliveries_keep)
qed

lemma stamps_Cons:
  "stamps (x # xs) = (case stamp_of x of None \<Rightarrow> stamps xs | Some s \<Rightarrow> s # stamps xs)"
  by (simp add: stamps_def List.map_filter_simps split: option.splits)

lemma stamps_Nil: "stamps [] = []"
  by (simp add: stamps_def List.map_filter_simps)

lemma stamps_append: "stamps (xs @ ys) = stamps xs @ stamps ys"
  by (induction xs) (simp_all add: stamps_Nil stamps_Cons split: option.splits)

lemma string_stamps_Cons:
  "string_stamps (x # xs) \<longleftrightarrow> string_stamps [x] \<and> string_stamps xs"
  by (simp add: string_stamps_def)

lemma string_stamps_append:
  "string_stamps (xs @ ys) \<longleftrightarrow> string_stamps xs \<and> string_stamps ys"
  by (simp add: string_stamps_def)

text \<open>The running maximum of the loop is the one of the comparisons alone.\<close>

lemma for_of_running_max:
  "for_of env xs n st = (Inr n', st') \<Longrightarrow> running_max env n xs = Some n'"
proof (induction xs arbitrary: n st)
  case Nil
  then show ?case by simp
next
  case (Cons x xs)
  obtain r1 st1 where b: "loop_body env x n st = (r1, st1)" by (cases "loop_body env x n st")
  show ?case
  proof (cases r1)
    case (Inl e)
    with Cons.prems b show ?thesis by simp
  next
    case (Inr n1)
    with Cons.prems b have rest: "for_of env xs n1 st1 = (Inr n', st')" by simp
    from loop_body_advance b Inr obtain u where
      u: "updatedAt_of x = Some u" "advance env u n = Some n1" by blast
    from Cons.IH [OF rest] u show ?thesis by simp
  qed
qed



text \<open>With string timestamps it is the greatest of the strings.\<close>

lemma advance_string_stamp:
  assumes "updatedAt_of x = Some u" "string_stamps [x]"
  shows "advance env u (JStr m) = Some (JStr (case stamp_of x of None \<Rightarrow> m | Some s \<Rightarrow> max m s))"
  using assms by (cases u) (auto simp: string_stamps_def stamp_of_def max_def)

lemma running_max_strings:
  "string_stamps xs \<Longrightarrow> running_max env (JStr m) xs = Some n' \<Longrightarrow>
     n' = JStr (Max (insert m (set (stamps xs))))"
proof (induction xs arbitrary: m)
  case Nil
  then show ?case by (simp add: stamps_Nil)
next
  case (Cons x xs)
  from Cons.prems(1) have sx: "string_stamps [x]" and sxs: "string_stamps xs"
    using string_stamps_Cons by blast+
  from Cons.prems(2) obtain u n1 where
    u: "updatedAt_of x = Some u" "advance env u (JStr m) = Some n1" "running_max env n1 xs = Some n'"
    by (auto split: option.splits)
  let ?m1 = "case stamp_of x of None \<Rightarrow> m | Some s \<Rightarrow> max m s"
  have n1: "n1 = JStr ?m1" using advance_string_stamp [OF u(1) sx, of env m] u(2) by simp
  have "n' = JStr (Max (insert ?m1 (set (stamps xs))))"
    using Cons.IH [OF sxs] u(3) n1 by simp
  then show ?case
  proof (cases "stamp_of x")
    case None
    with \<open>n' = _\<close> show ?thesis by (simp add: stamps_Cons)
  next
    case (Some s)
    have "Max (insert (max m s) (set (stamps xs))) = Max (insert m (insert s (set (stamps xs))))"
      by (cases "set (stamps xs) = {}") (simp_all add: max.assoc)
    with Some \<open>n' = _\<close> show ?thesis by (simp add: stamps_Cons)
  qed
qed

lemma for_of_Inl:
  "for_of env xs n st = (Inl e, st') \<Longrightarrow>
     \<exists>pre x post n1 st1. xs = pre @ x # post \<and> for_of env pre n st = (Inr n1, st1) \<and>
        loop_body env x n1 st1 = (Inl e, st')"
proof (induction xs arbitrary: n st)
  case Nil
  then show ?case by simp
next
  case (Cons x xs)
  obtain r1 st1 where b: "loop_body env x n st = (r1, st1)" by (cases "loop_body env x n st")
  show ?case
  proof (cases r1)
    case (Inl e1)
    with Cons.prems b have "loop_body env x n st = (Inl e, st')" by simp
    then have "x # xs = [] @ x # xs \<and> for_of env [] n st = (Inr n, st) \<and> loop_body env x n st = (Inl e, st')"
      by simp
    then show ?thesis by blast
  next
    case (Inr n1)
    with Cons.prems b have rest: "for_of env xs n1 st1 = (Inl e, st')" by simp
    from Cons.IH [OF rest] obtain pre y post n2 st2 where
      p: "xs = pre @ y # post" "for_of env pre n1 st1 = (Inr n2, st2)" "loop_body env y n2 st2 = (Inl e, st')"
      by blast
    have "x # xs = (x # pre) @ y # post \<and> for_of env (x # pre) n st = (Inr n2, st2) \<and>
        loop_body env y n2 st2 = (Inl e, st')"
      using p b Inr by simp
    then show ?thesis by blast
  qed
qed

lemma for_of_dom:
  "for_of env xs n st = (Inr n', st') \<Longrightarrow>
     dom (deliveries st') = dom (deliveries st) \<union> set (keys_of env xs n st) \<and>
     length (keys_of env xs n st) = length xs"
proof (induction xs arbitrary: n st)
  case Nil
  then show ?case by simp
next
  case (Cons x xs)
  obtain r1 st1 where b: "loop_body env x n st = (r1, st1)" by (cases "loop_body env x n st")
  show ?case
  proof (cases r1)
    case (Inl e)
    with Cons.prems b show ?thesis by simp
  next
    case (Inr n1)
    with Cons.prems b have rest: "for_of env xs n1 st1 = (Inr n', st')" by simp
    from loop_body_Inr_dom b Inr obtain key where
      k: "body_key env x st = Some key" "dom (deliveries st1) = insert key (dom (deliveries st))"
      by blast
    from Cons.IH [OF rest] k b Inr show ?thesis by auto
  qed
qed

subsection \<open>One cycle, and a sequence of cycles\<close>

lemma poll_Inr:
  assumes "pollOpportunities env st = (Inr u, st')"
  shows "\<exists>d opps n' st1 c. currentClient env \<and>
      client_get env (buildUpdatedSinceParams (since_of env st)) = Some d \<and>
      iterate (opportunities_of d) = Some opps \<and>
      for_of env opps (JStr (since_of env st)) (snd (five_minutes_ago env st)) = (Inr n', st1) \<and>
      bind_text env n' = Some c \<and> st' = setCursor cursorName c st1"
  using assms
  by (auto simp: pollOpportunities_def since_of_def Let_def
      split: if_splits option.splits prod.splits sum.splits)

lemma poll_Inl:
  assumes "pollOpportunities env st = (Inl e, st')"
  shows "(\<not> currentClient env \<and> e = ConfigError \<and> st' = st) \<or>
     (currentClient env \<and> client_get env (buildUpdatedSinceParams (since_of env st)) = None \<and>
        e = FetchError \<and> st' = snd (five_minutes_ago env st)) \<or>
     (\<exists>d. currentClient env \<and> client_get env (buildUpdatedSinceParams (since_of env st)) = Some d \<and>
        iterate (opportunities_of d) = None \<and> e = TypeError \<and> st' = snd (five_minutes_ago env st)) \<or>
     (\<exists>d opps. currentClient env \<and> client_get env (buildUpdatedSinceParams (since_of env st)) = Some d \<and>
        iterate (opportunities_of d) = Some opps \<and>
        for_of env opps (JStr (since_of env st)) (snd (five_minutes_ago env st)) = (Inl e, st')) \<or>
     (\<exists>d opps n'. currentClient env \<and> client_get env (buildUpdatedSinceParams (since_of env st)) = Some d \<and>
        iterate (opportunities_of d) = Some opps \<and>
        for_of env opps (JStr (since_of env st)) (snd (five_minutes_ago env st)) = (Inr n', st') \<and>
        bind_text env n' = None \<and> e = StoreError)"
  using assms
  by (auto simp: pollOpportunities_def since_of_def Let_def
      split: if_splits option.splits prod.splits sum.splits)

lemma five_minutes_ago_tables:
  "hooks (snd (five_minutes_ago env st)) = hooks st"
  "cursors (snd (five_minutes_ago env st)) = cursors st"
  "deliveries (snd (five_minutes_ago env st)) = deliveries st"
  "posts (snd (five_minutes_ago env st)) = posts st"
  by (simp_all add: five_minutes_ago_def)

lemma poll_Inl_cursors:
  assumes "pollOpportunities env st = (Inl e, st')"
  shows "cursors st' = cursors st"
  using poll_Inl [OF assms]
  by (auto simp: five_minutes_ago_tables dest: for_of_cursors)

lemma poll_deliveries_keep:
  assumes "pollOpportunities env st = (r, st')" "deliveries st k = Some d"
  shows "deliveries st' k = Some d"
proof (cases r)
  case (Inl e)
  with assms(1) have "pollOpportunities env st = (Inl e, st')" by simp
  from poll_Inl [OF this] assms(2) show ?thesis
    by (auto simp: five_minutes_ago_tables dest!: for_of_deliveries_keep [where k = k and d = d])
next
  case (Inr u)
  with assms(1) have "pollOpportunities env st = (Inr u, st')" by simp
  from poll_Inr [OF this] assms(2) show ?thesis
    by (auto simp: five_minutes_ago_tables setCursor_def dest!: for_of_deliveries_keep [where k = k and d = d])
qed

lemma since_of_stored:
  "cursors st cursorName = Some c0 \<Longrightarrow> c0 \<le> since_of env st"
  by (simp add: since_of_def getCursor_def five_minutes_ago_def)

lemma poll_Inr_cursor:
  assumes "pollOpportunities env st = (Inr u, st')"
  shows "\<exists>opps d n' c. client_get env (buildUpdatedSinceParams (since_of env st)) = Some d \<and>
      iterate (opportunities_of d) = Some opps \<and>
      running_max env (JStr (since_of env st)) opps = Some n' \<and> bind_text env n' = Some c \<and>
      cursors st' = (cursors st)(cursorName \<mapsto> c)"
proof -
  from poll_Inr [OF assms] obtain d opps n' st1 c where
    p: "client_get env (buildUpdatedSinceParams (since_of env st)) = Some d"
       "iterate (opportunities_of d) = Some opps"
       "for_of env opps (JStr (since_of env st)) (snd (five_minutes_ago env st)) = (Inr n', st1)"
       "bind_text env n' = Some c" "st' = setCursor cursorName c st1"
    by blast
  have "running_max env (JStr (since_of env st)) opps = Some n'"
    by (rule for_of_running_max [OF p(3)])
  moreover have "cursors st1 = cursors st"
    using for_of_cursors [OF p(3)] by (simp add: five_minutes_ago_tables)
  ultimately show ?thesis using p by (auto simp: setCursor_def)
qed

lemma batch_of_eq:
  "client_get env (buildUpdatedSinceParams (since_of env st)) = Some d \<Longrightarrow>
     iterate (opportunities_of d) = Some opps \<Longrightarrow> batch_of env st = opps"
  by (simp add: batch_of_def)

lemma poll_Inr_string_cursor:
  assumes "pollOpportunities env st = (Inr u, st')" "string_stamps (batch_of env st)"
  shows "cursors st' =
     (cursors st)(cursorName \<mapsto> Max (insert (since_of env st) (set (stamps (batch_of env st)))))"
proof -
  from poll_Inr_cursor [OF assms(1)] obtain opps d n' c where
    p: "client_get env (buildUpdatedSinceParams (since_of env st)) = Some d"
       "iterate (opportunities_of d) = Some opps"
       "running_max env (JStr (since_of env st)) opps = Some n'" "bind_text env n' = Some c"
       "cursors st' = (cursors st)(cursorName \<mapsto> c)"
    by blast
  have b: "batch_of env st = opps" by (rule batch_of_eq [OF p(1,2)])
  have "n' = JStr (Max (insert (since_of env st) (set (stamps opps))))"
    using running_max_strings [OF _ p(3)] assms(2) b by simp
  with p(4) have "c = Max (insert (since_of env st) (set (stamps opps)))"
    by (simp add: bind_text_def)
  with p(5) b show ?thesis by simp
qed

lemma cron_job_cursor:
  assumes "cursors st cursorName = Some c0" "string_stamps (batch_of env st)"
  shows "\<exists>c. cursors (cron_job env st) cursorName = Some c \<and> c0 \<le> c"
proof -
  obtain r st' where p: "pollOpportunities env st = (r, st')" by (cases "pollOpportunities env st")
  show ?thesis
  proof (cases r)
    case (Inl e)
    with p poll_Inl_cursors have "cursors st' = cursors st" by blast
    with p assms show ?thesis by (simp add: cron_job_def)
  next
    case (Inr u)
    with p have "pollOpportunities env st = (Inr u, st')" by simp
    from poll_Inr_string_cursor [OF this assms(2)]
    have c: "cursors st' cursorName =
        Some (Max (insert (since_of env st) (set (stamps (batch_of env st)))))"
      by simp
    have "since_of env st \<le> Max (insert (since_of env st) (set (stamps (batch_of env st))))" by simp
    with since_of_stored [OF assms(1), of env]
    have "c0 \<le> Max (insert (since_of env st) (set (stamps (batch_of env st))))"
      by (rule order_trans)
    with c p show ?thesis by (simp add: cron_job_def)
  qed
qed

lemma cron_jobs_cursor:
  "cursors st cursorName = Some c0 \<Longrightarrow> string_stamped envs st \<Longrightarrow>
     \<exists>c. cursors (cron_jobs envs st) cursorName = Some c \<and> c0 \<le> c"
proof (induction envs arbitrary: st c0)
  case Nil
  then show ?case by simp
next
  case (Cons env envs)
  from Cons.prems(2) have s: "string_stamps (batch_of env st)" "string_stamped envs (cron_job env st)"
    by simp_all
  from cron_job_cursor [OF Cons.prems(1) s(1)] obtain c1 where
    c1: "cursors (cron_job env st) cursorName = Some c1" "c0 \<le> c1" by blast
  from Cons.IH [OF c1(1) s(2)] obtain c where
    "cursors (cron_jobs envs (cron_job env st)) cursorName = Some c" "c1 \<le> c"
    by blast
  with c1 show ?case by auto
qed


subsection \<open>Keys, outbound calls and the ledger\<close>

lemma body_key_obtain:
  assumes "body_key env opp st = Some key"
  obtains u occ st1 where "updatedAt_of opp = Some u" "occurredAt_of env u st = (occ, st1)"
    "idempotencyKey opp occ = Some key" "body_occurredAt env opp st = Some occ"
proof -
  from assms obtain u where u: "updatedAt_of opp = Some u"
    by (auto simp: body_key_def body_occurredAt_def split: option.splits)
  obtain occ st1 where o: "occurredAt_of env u st = (occ, st1)" by (cases "occurredAt_of env u st")
  with assms u have "idempotencyKey opp occ = Some key"
    by (simp add: body_key_def body_occurredAt_def)
  with u o that show ?thesis by (simp add: body_occurredAt_def)
qed

lemma loop_body_posts:
  assumes "loop_body env opp n st = (r, st')"
  shows "posts st' = posts st \<or>
     (\<exists>url occ key. getHook st ''opportunity.updated'' = Some url \<and>
        body_occurredAt env opp st = Some occ \<and> body_key env opp st = Some key \<and>
        deliveries st key = None \<and>
        posts st' = posts st @ [(url, envelope opp occ key)])"
proof (cases r)
  case (Inl e)
  with assms have "loop_body env opp n st = (Inl e, st')" by simp
  from loop_body_Inl [OF this] show ?thesis by auto
next
  case (Inr n')
  with assms have "loop_body env opp n st = (Inr n', st')" by simp
  from loop_body_Inr [OF this] obtain u occ st1 key where
    a: "updatedAt_of opp = Some u" "occurredAt_of env u st = (occ, st1)"
       "idempotencyKey opp occ = Some key"
       "if alreadyDelivered st1 key then st' = st1
        else \<exists>st2. postToZapier env ''opportunity.updated'' (envelope opp occ key) st1 = (Inr (), st2) \<and>
             st' = markDelivered key (fst (now_iso env st2)) (snd (now_iso env st2))"
    by blast
  note tab = occurredAt_of_tables [OF a(2)]
  have bo: "body_occurredAt env opp st = Some occ" using body_occurredAt_eq [OF a(1,2)] .
  have bk: "body_key env opp st = Some key" using body_key_eq [OF a(1,2)] a(3) by simp
  show ?thesis
  proof (cases "alreadyDelivered st1 key")
    case True
    with a(4) tab(4) show ?thesis by simp
  next
    case False
    with a(4) obtain st2 where
      p: "postToZapier env ''opportunity.updated'' (envelope opp occ key) st1 = (Inr (), st2)"
         "st' = markDelivered key (fst (now_iso env st2)) (snd (now_iso env st2))"
      by auto
    have ps: "posts st' = posts st2"
      using p(2) by (simp add: markDelivered_def now_iso_def split: option.splits)
    have nd: "deliveries st key = None" using False tab(3) by (simp add: alreadyDelivered_def)
    from postToZapier_cases [OF p(1)] show ?thesis
    proof (elim disjE conjE exE)
      assume "st2 = st1"
      with ps tab(4) show ?thesis by simp
    next
      fix url
      assume "getHook st1 ''opportunity.updated'' = Some url"
        and "st2 = st1\<lparr>posts := posts st1 @ [(url, envelope opp occ key)]\<rparr>"
      then have "getHook st ''opportunity.updated'' = Some url"
        and "posts st' = posts st @ [(url, envelope opp occ key)]"
        using ps tab(1,4) by (simp_all add: getHook_def)
      with bo bk nd show ?thesis by blast
    qed
  qed
qed

text \<open>A batch of records that carry a timestamp and are in the ledger already.\<close>

lemma for_of_all_skipped:
  assumes "\<forall>opp \<in> set opps. \<exists>u key. updatedAt_of opp = Some u \<and> truthy u \<and>
      idempotencyKey opp u = Some key \<and> deliveries st key \<noteq> None"
  shows "\<exists>n'. running_max env n opps = Some n' \<and> for_of env opps n st = (Inr n', st)"
  using assms
proof (induction opps arbitrary: n)
  case Nil
  then show ?case by simp
next
  case (Cons x xs)
  from Cons.prems obtain u key where
    x: "updatedAt_of x = Some u" "truthy u" "idempotencyKey x u = Some key"
       "deliveries st key \<noteq> None"
    by auto
  have o: "occurredAt_of env u st = (u, st)" using x(2) by (simp add: occurredAt_of_def)
  from key_advance [OF o x(3)] obtain n1 where n1: "advance env u n = Some n1" by blast
  have b: "loop_body env x n st = (Inr n1, st)"
    using loop_body_keyed [OF x(1) o x(3) n1] x(4) by (simp add: alreadyDelivered_def)
  from Cons.IH [of n1] Cons.prems obtain n' where
    ih: "running_max env n1 xs = Some n'" "for_of env xs n1 st = (Inr n', st)"
    by auto
  with b x(1) n1 show ?case by simp
qed

lemma loop_body_seen:
  assumes "body_key env opp st = Some key" "deliveries st key \<noteq> None"
  shows "\<exists>n' st'. loop_body env opp n st = (Inr n', st') \<and> posts st' = posts st \<and>
     deliveries st' = deliveries st \<and> hooks st' = hooks st \<and> cursors st' = cursors st"
proof -
  from assms(1) obtain u occ st1 where
    a: "updatedAt_of opp = Some u" "occurredAt_of env u st = (occ, st1)"
       "idempotencyKey opp occ = Some key"
    by (rule body_key_obtain)
  from key_advance [OF a(2,3)] obtain n' where n': "advance env u n = Some n'" by blast
  note tab = occurredAt_of_tables [OF a(2)]
  have "alreadyDelivered st1 key" using assms(2) tab(3) by (simp add: alreadyDelivered_def)
  then have "loop_body env opp n st = (Inr n', st1)"
    using loop_body_keyed [OF a n'] by simp
  with tab show ?thesis by simp
qed

lemma loop_body_no_hook:
  assumes "getHook st ''opportunity.updated'' = None" "body_key env opp st = Some key"
  shows "\<exists>n' st'. loop_body env opp n st = (Inr n', st') \<and> posts st' = posts st \<and>
     deliveries st' key \<noteq> None"
proof -
  from assms(2) obtain u occ st1 where
    a: "updatedAt_of opp = Some u" "occurredAt_of env u st = (occ, st1)"
       "idempotencyKey opp occ = Some key"
    by (rule body_key_obtain)
  from key_advance [OF a(2,3)] obtain n' where n': "advance env u n = Some n'" by blast
  note tab = occurredAt_of_tables [OF a(2)]
  have h: "getHook st1 ''opportunity.updated'' = None" using assms(1) tab(1) by (simp add: getHook_def)
  show ?thesis
  proof (cases "alreadyDelivered st1 key")
    case True
    then have "loop_body env opp n st = (Inr n', st1)" using loop_body_keyed [OF a n'] by simp
    with True tab show ?thesis by (simp add: alreadyDelivered_def)
  next
    case False
    have "loop_body env opp n st =
        (Inr n', markDelivered key (fst (now_iso env st1)) (snd (now_iso env st1)))"
      using loop_body_keyed [OF a n'] False h by (simp add: postToZapier_def)
    moreover have "posts (markDelivered key (fst (now_iso env st1)) (snd (now_iso env st1))) = posts st"
      using tab(4) by (simp add: markDelivered_def now_iso_def split: option.splits)
    moreover have "deliveries (markDelivered key (fst (now_iso env st1)) (snd (now_iso env st1))) key \<noteq> None"
      by (simp add: markDelivered_def now_iso_def split: option.splits)
    ultimately show ?thesis by simp
  qed
qed

lemma loop_body_unseen_hook:
  assumes "body_key env opp st = Some key" "deliveries st key = None"
    "getHook st ''opportunity.updated'' = Some url" "body_occurredAt env opp st = Some occ"
    "loop_body env opp n st = (r, st')"
  shows "posts st' = posts st @ [(url, envelope opp occ key)]"
proof -
  from assms(1) obtain u occ' st1 where
    a: "updatedAt_of opp = Some u" "occurredAt_of env u st = (occ', st1)"
       "idempotencyKey opp occ' = Some key" "body_occurredAt env opp st = Some occ'"
    by (rule body_key_obtain)
  have oo: "occ' = occ" using a(4) assms(4) by simp
  from key_advance [OF a(2,3)] obtain n' where n': "advance env u n = Some n'" by blast
  note tab = occurredAt_of_tables [OF a(2)]
  have h: "getHook st1 ''opportunity.updated'' = Some url" using assms(3) tab(1) by (simp add: getHook_def)
  have nd: "\<not> alreadyDelivered st1 key" using assms(2) tab(3) by (simp add: alreadyDelivered_def)
  show ?thesis
    using loop_body_keyed [OF a(1,2,3) n'] nd h assms(5) tab(4) oo
    by (auto simp: postToZapier_def markDelivered_def now_iso_def split: if_splits option.splits)
qed

lemma posts_for_append:
  "posts st' = posts st @ [(url, p)] \<Longrightarrow>
     posts_for key st' = posts_for key st @ (if idempotency_key p = key then [(url, p)] else [])"
  by (simp add: posts_for_def)

lemma posts_for_same: "posts st' = posts st \<Longrightarrow> posts_for key st' = posts_for key st"
  by (simp add: posts_for_def)

lemma loop_body_settled:
  assumes "deliveries st key \<noteq> None" "loop_body env opp n st = (r, st')"
  shows "posts_for key st' = posts_for key st \<and> deliveries st' key \<noteq> None"
proof -
  from assms(1) obtain d where d: "deliveries st key = Some d" by auto
  have k: "deliveries st' key \<noteq> None"
    using loop_body_deliveries_keep [OF assms(2) d] by simp
  from loop_body_posts [OF assms(2)] have "posts_for key st' = posts_for key st"
  proof (elim disjE exE conjE)
    assume "posts st' = posts st"
    then show ?thesis by (rule posts_for_same)
  next
    fix url occ k'
    assume "deliveries st k' = None" and p: "posts st' = posts st @ [(url, envelope opp occ k')]"
    with assms(1) have "k' \<noteq> key" by auto
    with posts_for_append [OF p, of key] show ?thesis by (simp add: envelope_def)
  qed
  with k show ?thesis by simp
qed

lemma for_of_settled:
  "deliveries st key \<noteq> None \<Longrightarrow> for_of env xs n st = (r, st') \<Longrightarrow>
     posts_for key st' = posts_for key st \<and> deliveries st' key \<noteq> None"
proof (induction xs arbitrary: n st)
  case Nil
  then show ?case by simp
next
  case (Cons x xs)
  obtain r1 st1 where b: "loop_body env x n st = (r1, st1)" by (cases "loop_body env x n st")
  from loop_body_settled [OF Cons.prems(1) b]
  have s1: "posts_for key st1 = posts_for key st" "deliveries st1 key \<noteq> None" by simp_all
  show ?case
  proof (cases r1)
    case (Inl e)
    with Cons.prems(2) b s1 show ?thesis by simp
  next
    case (Inr n1)
    with Cons.prems(2) b have "for_of env xs n1 st1 = (r, st')" by simp
    from Cons.IH [OF s1(2) this] s1(1) show ?thesis by simp
  qed
qed

lemma poll_settled:
  assumes "deliveries st key \<noteq> None" "pollOpportunities env st = (r, st')"
  shows "posts_for key st' = posts_for key st \<and> deliveries st' key \<noteq> None"
proof -
  let ?st0 = "snd (five_minutes_ago env st)"
  have z: "deliveries ?st0 key \<noteq> None" "posts_for key ?st0 = posts_for key st"
    using assms(1) by (simp_all add: five_minutes_ago_tables posts_for_def)
  show ?thesis
  proof (cases r)
    case (Inl e)
    with assms(2) have "pollOpportunities env st = (Inl e, st')" by simp
    from poll_Inl [OF this] show ?thesis
      using assms(1) z for_of_settled [OF z(1)] by auto
  next
    case (Inr u)
    with assms(2) have "pollOpportunities env st = (Inr u, st')" by simp
    from poll_Inr [OF this] obtain opps n' st1 c where
      f: "for_of env opps (JStr (since_of env st)) ?st0 = (Inr n', st1)"
         "st' = setCursor cursorName c st1"
      by blast
    from for_of_settled [OF z(1) f(1)] z(2) f(2) show ?thesis
      by (simp add: setCursor_def posts_for_def)
  qed
qed

lemma cron_jobs_settled:
  "deliveries st key \<noteq> None \<Longrightarrow>
     posts_for key (cron_jobs envs st) = posts_for key st \<and> deliveries (cron_jobs envs st) key \<noteq> None"
proof (induction envs arbitrary: st)
  case Nil
  then show ?case by simp
next
  case (Cons env envs)
  obtain r st1 where p: "pollOpportunities env st = (r, st1)" by (cases "pollOpportunities env st")
  from poll_settled [OF Cons.prems p]
  have s1: "posts_for key st1 = posts_for key st" "deliveries st1 key \<noteq> None" by simp_all
  from Cons.IH [OF s1(2)] s1(1) p show ?case by (simp add: cron_job_def)
qed

lemma for_of_no_hook:
  "getHook st ''opportunity.updated'' = None \<Longrightarrow> for_of env xs n st = (r, st') \<Longrightarrow>
     posts st' = posts st \<and> r \<noteq> Inl DeliveryError"
proof (induction xs arbitrary: n st)
  case Nil
  then show ?case by auto
next
  case (Cons x xs)
  obtain r1 st1 where b: "loop_body env x n st = (r1, st1)" by (cases "loop_body env x n st")
  have p1: "posts st1 = posts st"
    using loop_body_posts [OF b] Cons.prems(1) by auto
  have h1: "getHook st1 ''opportunity.updated'' = None"
    using loop_body_hooks [OF b] Cons.prems(1) by (simp add: getHook_def)
  show ?case
  proof (cases r1)
    case (Inl e)
    with b have "loop_body env x n st = (Inl e, st1)" by simp
    from loop_body_Inl [OF this] Cons.prems(1) have "e \<noteq> DeliveryError" by auto
    with Inl Cons.prems(2) b p1 show ?thesis by auto
  next
    case (Inr n1)
    with Cons.prems(2) b have "for_of env xs n1 st1 = (r, st')" by simp
    from Cons.IH [OF h1 this] p1 show ?thesis by simp
  qed
qed

section \<open>The claims\<close>

subsection \<open>Evaluation of the examples\<close>

lemmas example_defs =
  example_env_def example_state_def example_relayed_def example_numeric_def example_ahead_def
  opp1_def opp2_def opp3_def opp4_def opp5_def
  pollOpportunities_def currentClient_def five_minutes_ago_def getCursor_def cursorName_def
  buildUpdatedSinceParams_def opportunities_of_def opt_member_def own_def js_or_def loop_body_def
  updatedAt_of_def occurredAt_of_def idempotencyKey_def envelope_def dec_int_def dec.simps
  alreadyDelivered_def postToZapier_def getHook_def markDelivered_def now_iso_def setCursor_def
  cron_job_def since_of_def bind_text_def str_to_num_def is_digit_def digit_val_def
  digits_val_def numeric_char_def Let_def


subsection \<open>C1: a record is delivered once\<close>

text \<open>
  Claim C1. The turn of the loop for a record whose idempotency key is in the ledger
  makes no outbound POST and leaves the ledger as it is.

  Hence the same normalized record is sent once. When the first turn for a record with
  an unseen key completes, with a webhook registered, it has made exactly one POST for
  that key. In any state reached afterwards, by the rest of the same cycle or by any
  sequence of later cycles, no further POST for the key has been made, and the turn for
  any record that resolves to the same key (same id and same resolved timestamp)
  makes no POST and leaves the ledger as it is.
\<close>

theorem idempotent_delivery:
  "(body_key env_a opp_a st_a = Some key_a \<and> deliveries st_a key_a \<noteq> None \<longrightarrow>
      (\<exists>n' st'. loop_body env_a opp_a n_a st_a = (Inr n', st') \<and> posts st' = posts st_a \<and>
         deliveries st' = deliveries st_a)) \<and>
   (body_key env opp st = Some key \<and> deliveries st key = None \<and>
    getHook st ''opportunity.updated'' = Some url \<and> body_occurredAt env opp st = Some occ \<and>
    loop_body env opp n st = (Inr n_d, st_d) \<and>
    (st_l = snd (for_of env xs n_d st_d) \<and> fst (for_of env xs n_d st_d) \<noteq> Inl OutsideModel \<or>
     st_l = cron_jobs envs st_d \<and> within_model envs st_d) \<and>
    body_key env_l opp_l st_l = Some key \<longrightarrow>
      posts_for key st_d = posts_for key st @ [(url, envelope opp occ key)] \<and>
      posts_for key st_l = posts_for key st_d \<and>
      (\<exists>n' st3. loop_body env_l opp_l m st_l = (Inr n', st3) \<and> posts st3 = posts st_l \<and>
         deliveries st3 = deliveries st_l))"
proof -
  have first: "\<exists>n' st'. loop_body env_a opp_a n_a st_a = (Inr n', st') \<and> posts st' = posts st_a \<and>
         deliveries st' = deliveries st_a"
    if "body_key env_a opp_a st_a = Some key_a \<and> deliveries st_a key_a \<noteq> None"
    using that loop_body_seen [of env_a opp_a st_a key_a n_a] by blast
  have second: "posts_for key st_d = posts_for key st @ [(url, envelope opp occ key)] \<and>
      posts_for key st_l = posts_for key st_d \<and>
      (\<exists>n' st3. loop_body env_l opp_l m st_l = (Inr n', st3) \<and> posts st3 = posts st_l \<and>
         deliveries st3 = deliveries st_l)"
    if a: "body_key env opp st = Some key \<and> deliveries st key = None \<and>
    getHook st ''opportunity.updated'' = Some url \<and> body_occurredAt env opp st = Some occ \<and>
    loop_body env opp n st = (Inr n_d, st_d) \<and>
    (st_l = snd (for_of env xs n_d st_d) \<and> fst (for_of env xs n_d st_d) \<noteq> Inl OutsideModel \<or>
     st_l = cron_jobs envs st_d \<and> within_model envs st_d) \<and>
    body_key env_l opp_l st_l = Some key"
  proof -
    from a have k: "body_key env opp st = Some key" and u: "deliveries st key = None"
      and h: "getHook st ''opportunity.updated'' = Some url"
      and o: "body_occurredAt env opp st = Some occ"
      and b: "loop_body env opp n st = (Inr n_d, st_d)"
      and l: "st_l = snd (for_of env xs n_d st_d) \<or> st_l = cron_jobs envs st_d"
      and k2: "body_key env_l opp_l st_l = Some key"
      by auto
    have p1: "posts st_d = posts st @ [(url, envelope opp occ key)]"
      by (rule loop_body_unseen_hook [OF k u h o b])
    have one: "posts_for key st_d = posts_for key st @ [(url, envelope opp occ key)]"
      using posts_for_append [OF p1, of key] by (simp add: envelope_def)
    from loop_body_Inr_dom [OF b] k have d1: "deliveries st_d key \<noteq> None" by auto
    have later: "posts_for key st_l = posts_for key st_d \<and> deliveries st_l key \<noteq> None"
      using l
    proof
      assume s: "st_l = snd (for_of env xs n_d st_d)"
      obtain r st' where f: "for_of env xs n_d st_d = (r, st')" by (cases "for_of env xs n_d st_d")
      from for_of_settled [OF d1 f] s f show ?thesis by simp
    next
      assume "st_l = cron_jobs envs st_d"
      with cron_jobs_settled [OF d1, of envs] show ?thesis by simp
    qed
    from loop_body_seen [OF k2, of m] later
    have "\<exists>n' st3. loop_body env_l opp_l m st_l = (Inr n', st3) \<and> posts st3 = posts st_l \<and>
           deliveries st3 = deliveries st_l"
      by blast
    with one later show ?thesis by simp
  qed
  from first second show ?thesis by blast
qed

theorem idempotent_delivery_witness:
  "body_key (example_env (JArr [opp1]) (\<lambda>i. False)) opp1 example_relayed =
     Some ''opportunity:1:2024-01-02T00:00:00Z'' \<and>
   deliveries example_relayed ''opportunity:1:2024-01-02T00:00:00Z'' \<noteq> None \<and>
   (\<exists>n' st'. loop_body (example_env (JArr [opp1]) (\<lambda>i. False)) opp1 (JStr ''2024-01-01T00:00:00Z'')
        example_relayed = (Inr n', st') \<and>
      posts st' = [] \<and> deliveries st' = deliveries example_relayed) \<and>
   deliveries example_state ''opportunity:1:2024-01-02T00:00:00Z'' = None \<and>
   getHook example_state ''opportunity.updated'' = Some ''https://hooks.example/catch'' \<and>
   fst (loop_body (example_env (JArr [opp1, opp1]) (\<lambda>i. i = 0)) opp1 (JStr ''2024-01-01T00:00:00Z'') example_state) =
     Inr (JStr ''2024-01-02T00:00:00Z'') \<and>
   within_model [example_env (JArr [opp1, opp1]) (\<lambda>i. i = 0)]
     (snd (loop_body (example_env (JArr [opp1, opp1]) (\<lambda>i. i = 0)) opp1 (JStr ''2024-01-01T00:00:00Z'') example_state)) \<and>
   posts_for ''opportunity:1:2024-01-02T00:00:00Z''
     (cron_jobs [example_env (JArr [opp1, opp1]) (\<lambda>i. i = 0)]
       (snd (loop_body (example_env (JArr [opp1, opp1]) (\<lambda>i. i = 0)) opp1 (JStr ''2024-01-01T00:00:00Z'') example_state))) =
     [(''https://hooks.example/catch'',
       envelope opp1 (JStr ''2024-01-02T00:00:00Z'') ''opportunity:1:2024-01-02T00:00:00Z'')]"
proof -
  let ?key = "''opportunity:1:2024-01-02T00:00:00Z''"
  let ?since = "JStr ''2024-01-01T00:00:00Z''"
  let ?quiet = "example_env (JArr [opp1]) (\<lambda>i. False)"
  let ?e = "example_env (JArr [opp1, opp1]) (\<lambda>i. i = 0)"
  let ?st1 = "snd (loop_body ?e opp1 ?since example_state)"
  let ?st2 = "cron_jobs [?e] ?st1"
  have k0: "body_key ?quiet opp1 example_relayed = Some ?key"
    by (simp add: body_key_def body_occurredAt_def example_defs)
  have d0: "deliveries example_relayed ?key \<noteq> None" by (simp add: example_defs)
  have p0: "posts example_relayed = []" by (simp add: example_defs)
  have k: "body_key ?e opp1 example_state = Some ?key"
    by (simp add: body_key_def body_occurredAt_def example_defs)
  have u: "deliveries example_state ?key = None" by (simp add: example_defs)
  have h: "getHook example_state ''opportunity.updated'' = Some ''https://hooks.example/catch''"
    by (simp add: example_defs)
  have o: "body_occurredAt ?e opp1 example_state = Some (JStr ''2024-01-02T00:00:00Z'')"
    by (simp add: body_occurredAt_def example_defs)
  have r: "fst (loop_body ?e opp1 ?since example_state) = Inr (JStr ''2024-01-02T00:00:00Z'')"
    by (simp add: example_defs)
  then have b: "loop_body ?e opp1 ?since example_state = (Inr (JStr ''2024-01-02T00:00:00Z''), ?st1)"
    by (metis prod.collapse)
  have w: "within_model [?e] ?st1" by (simp add: example_defs)
  have k2: "body_key ?e opp1 ?st2 = Some ?key"
    by (simp add: body_key_def body_occurredAt_def example_defs)
  have e: "posts_for ?key example_state = []" by (simp add: posts_for_def example_defs)
  note inst = idempotent_delivery [where env_a = ?quiet and opp_a = opp1 and st_a = example_relayed
      and key_a = ?key and n_a = ?since and env = ?e and opp = opp1 and st = example_state
      and key = ?key and url = "''https://hooks.example/catch''" and occ = "JStr ''2024-01-02T00:00:00Z''"
      and n = ?since and n_d = "JStr ''2024-01-02T00:00:00Z''" and st_d = ?st1 and st_l = ?st2
      and xs = "[]" and envs = "[?e]" and env_l = ?e and opp_l = opp1 and m = ?since]
  from inst k0 d0 have first: "\<exists>n' st'. loop_body ?quiet opp1 ?since example_relayed = (Inr n', st') \<and>
      posts st' = posts example_relayed \<and> deliveries st' = deliveries example_relayed"
    by blast
  from inst k u h o b w k2 have second:
    "posts_for ?key ?st1 = posts_for ?key example_state @
       [(''https://hooks.example/catch'', envelope opp1 (JStr ''2024-01-02T00:00:00Z'') ?key)]"
    "posts_for ?key ?st2 = posts_for ?key ?st1"
    by blast+
  from k0 d0 first u h r w second show ?thesis unfolding p0 e by simp
qed

subsection \<open>C2: the cursor moves backwards only with a timestamp that is not a string\<close>

text \<open>
  Claim C2 says that every cycle that completes without an error persists a cursor
  greater than or equal to the one it read. With the cursor \<open>5\<close> stored and the record
  \<open>opp5\<close>, whose \<open>updated_at\<close> is the number 10, the comparison \<open>10 > "5"\<close> is numeric
  and true, the number is bound to the statement of \<open>setCursor\<close>, the store keeps the
  text \<open>10.0\<close>, and \<open>10.0\<close> is less than \<open>5\<close> in the lexicographic order.
\<close>

theorem numeric_timestamp_counterexample:
  "pollOpportunities (example_env (JArr [opp5]) (\<lambda>i. True)) example_numeric =
     (Inr (), snd (pollOpportunities (example_env (JArr [opp5]) (\<lambda>i. True)) example_numeric)) \<and>
   since_of (example_env (JArr [opp5]) (\<lambda>i. True)) example_numeric = ''5'' \<and>
   cursors (snd (pollOpportunities (example_env (JArr [opp5]) (\<lambda>i. True)) example_numeric)) cursorName =
     Some ''10.0'' \<and>
   ''10.0'' < ''5''"
  by (simp add: example_defs)

text \<open>
  Claim C2, amended. A cycle of \<open>pollOpportunities\<close> that completes without an error, and
  in whose batch every timestamp is a string (no record resolves \<open>updatedAt\<close> to a
  number, \<open>true\<close>, an array or an object), persists under the name
  \<open>opportunities.updated_at\<close> a cursor that is greater than or equal to the cursor it
  read at its start (\<open>since_of\<close>), in the lexicographic order of strings. Hence over any
  sequence of cycles with such batches the stored cursor never decreases: a cycle that
  fails leaves the cursor as it was.
\<close>

theorem cursor_monotone:
  "(pollOpportunities env st = (Inr u, st') \<and> string_stamps (batch_of env st) \<longrightarrow>
      (\<exists>c. cursors st' cursorName = Some c \<and> since_of env st \<le> c)) \<and>
   (string_stamped envs st \<and> cursors st cursorName = Some c0 \<longrightarrow>
      (\<exists>c. cursors (cron_jobs envs st) cursorName = Some c \<and> c0 \<le> c))"
proof -
  have one: "\<exists>c. cursors st' cursorName = Some c \<and> since_of env st \<le> c"
    if "pollOpportunities env st = (Inr u, st') \<and> string_stamps (batch_of env st)"
  proof -
    from that have p: "pollOpportunities env st = (Inr u, st')"
      and s: "string_stamps (batch_of env st)" by simp_all
    from poll_Inr_string_cursor [OF p s]
    have "cursors st' cursorName =
        Some (Max (insert (since_of env st) (set (stamps (batch_of env st)))))"
      by simp
    then show ?thesis by simp
  qed
  have many: "\<exists>c. cursors (cron_jobs envs st) cursorName = Some c \<and> c0 \<le> c"
    if "string_stamped envs st \<and> cursors st cursorName = Some c0"
    using that by (simp add: cron_jobs_cursor)
  from one many show ?thesis by blast
qed

theorem cursor_monotone_witness:
  "pollOpportunities (example_env (JArr [opp1, opp2]) (\<lambda>i. True)) example_state =
     (Inr (), snd (pollOpportunities (example_env (JArr [opp1, opp2]) (\<lambda>i. True)) example_state)) \<and>
   string_stamps (batch_of (example_env (JArr [opp1, opp2]) (\<lambda>i. True)) example_state) \<and>
   string_stamped [example_env (JArr [opp1, opp2]) (\<lambda>i. True), example_env (JArr [opp2]) (\<lambda>i. True)] example_state \<and>
   cursors example_state cursorName = Some ''2024-01-01T00:00:00Z'' \<and>
   (\<exists>c. cursors (snd (pollOpportunities (example_env (JArr [opp1, opp2]) (\<lambda>i. True)) example_state)) cursorName = Some c \<and>
      since_of (example_env (JArr [opp1, opp2]) (\<lambda>i. True)) example_state \<le> c) \<and>
   (\<exists>c. cursors (cron_jobs [example_env (JArr [opp1, opp2]) (\<lambda>i. True), example_env (JArr [opp2]) (\<lambda>i. True)] example_state) cursorName = Some c \<and>
      ''2024-01-01T00:00:00Z'' \<le> c)"
proof -
  let ?env = "example_env (JArr [opp1, opp2]) (\<lambda>i. True)"
  let ?envs = "[?env, example_env (JArr [opp2]) (\<lambda>i. True)]"
  have a: "pollOpportunities ?env example_state = (Inr (), snd (pollOpportunities ?env example_state))"
    by (simp add: example_defs)
  have s: "string_stamps (batch_of ?env example_state)"
    by (simp add: batch_of_def string_stamps_def example_defs)
  have b: "string_stamped ?envs example_state"
    by (simp add: batch_of_def string_stamps_def example_defs)
  have c: "cursors example_state cursorName = Some ''2024-01-01T00:00:00Z''"
    by (simp add: example_defs)
  show ?thesis
    using a s b c cursor_monotone [of ?env example_state "()"
        "snd (pollOpportunities ?env example_state)" ?envs "''2024-01-01T00:00:00Z''"]
    by blast
qed

subsection \<open>C3: a delivery that fails in the middle of a cycle\<close>

text \<open>
  Claim C3 says that after a failed delivery the records behind the failing one remain
  unmarked unless an earlier cycle marked them. In the batch \<open>opp1, opp2, opp1\<close>, where the
  POST for \<open>opp2\<close> fails, the third record carries the key of the first: that key was
  not in the ledger before the cycle and is in it afterwards.
\<close>

theorem duplicate_after_failure_counterexample:
  "pollOpportunities (example_env (JArr [opp1, opp2, opp1]) (\<lambda>i. i = 0)) example_state =
     (Inl DeliveryError,
      snd (pollOpportunities (example_env (JArr [opp1, opp2, opp1]) (\<lambda>i. i = 0)) example_state)) \<and>
   length (posts (snd (pollOpportunities (example_env (JArr [opp1, opp2, opp1]) (\<lambda>i. i = 0)) example_state))) = 2 \<and>
   [opp1, opp2, opp1] ! 2 = opp1 \<and>
   body_key (example_env (JArr [opp1, opp2, opp1]) (\<lambda>i. i = 0)) opp1
     (snd (pollOpportunities (example_env (JArr [opp1, opp2, opp1]) (\<lambda>i. i = 0)) example_state)) =
     Some ''opportunity:1:2024-01-02T00:00:00Z'' \<and>
   deliveries example_state ''opportunity:1:2024-01-02T00:00:00Z'' = None \<and>
   deliveries (snd (pollOpportunities (example_env (JArr [opp1, opp2, opp1]) (\<lambda>i. i = 0)) example_state))
     ''opportunity:1:2024-01-02T00:00:00Z'' = Some ''2024-06-01T00:00:00.000Z''"
  by (simp add: body_key_def body_occurredAt_def example_defs)

text \<open>
  Claim C3, amended. A cycle that ends with a delivery error has processed a prefix
  \<open>pre\<close> of its batch without an exception and failed at the next record \<open>x\<close>. Then
  the ledger holds the keys it held before the cycle and the keys under which the
  records of \<open>pre\<close> were processed (one for each record of \<open>pre\<close>), and no other key:
  the key of \<open>x\<close> is not in it, and the key of a later record is in it only if it
  was there before the cycle or is the key of a record of \<open>pre\<close>. The cursors table
  is as it was before the cycle.
\<close>

theorem partial_cycle:
  assumes "pollOpportunities env st = (Inl DeliveryError, st')"
  shows "\<exists>d pre x post n1 st1 key.
     client_get env (buildUpdatedSinceParams (since_of env st)) = Some d \<and>
     iterate (opportunities_of d) = Some (pre @ x # post) \<and>
     for_of env pre (JStr (since_of env st)) (snd (five_minutes_ago env st)) = (Inr n1, st1) \<and>
     loop_body env x n1 st1 = (Inl DeliveryError, st') \<and>
     length (keys_of env pre (JStr (since_of env st)) (snd (five_minutes_ago env st))) = length pre \<and>
     dom (deliveries st') =
       dom (deliveries st) \<union> set (keys_of env pre (JStr (since_of env st)) (snd (five_minutes_ago env st))) \<and>
     body_key env x st1 = Some key \<and> deliveries st' key = None \<and>
     cursors st' = cursors st"
proof -
  let ?st0 = "snd (five_minutes_ago env st)"
  from poll_Inl [OF assms] obtain d opps where
    g: "client_get env (buildUpdatedSinceParams (since_of env st)) = Some d"
    and i: "iterate (opportunities_of d) = Some opps"
    and f: "for_of env opps (JStr (since_of env st)) ?st0 = (Inl DeliveryError, st')"
    by auto
  from for_of_Inl [OF f] obtain pre x post n1 st1 where
    s: "opps = pre @ x # post"
    and p: "for_of env pre (JStr (since_of env st)) ?st0 = (Inr n1, st1)"
    and b: "loop_body env x n1 st1 = (Inl DeliveryError, st')"
    by blast
  from for_of_dom [OF p] have
    dm: "dom (deliveries st1) = dom (deliveries st) \<union> set (keys_of env pre (JStr (since_of env st)) ?st0)"
    and ln: "length (keys_of env pre (JStr (since_of env st)) ?st0) = length pre"
    by (simp_all add: five_minutes_ago_tables)
  from loop_body_Inl [OF b] obtain key where
    k: "body_key env x st1 = Some key" "deliveries st1 key = None"
    by auto
  have same: "deliveries st' = deliveries st1" by (rule loop_body_Inl_deliveries [OF b])
  have c: "cursors st' = cursors st" by (rule poll_Inl_cursors [OF assms])
  have dm': "dom (deliveries st') =
       dom (deliveries st) \<union> set (keys_of env pre (JStr (since_of env st)) ?st0)"
    using dm same by simp
  have k': "deliveries st' key = None" using k(2) same by simp
  have i': "iterate (opportunities_of d) = Some (pre @ x # post)" using i s by simp
  show ?thesis
    apply (rule exI [of _ d], rule exI [of _ pre], rule exI [of _ x], rule exI [of _ post])
    apply (rule exI [of _ n1], rule exI [of _ st1], rule exI [of _ key])
    using g i' p b ln dm' k(1) k' c apply simp
    done
qed

theorem partial_cycle_witness:
  "pollOpportunities (example_env (JArr [opp1, opp2, opp3]) (\<lambda>i. i = 0)) example_state =
     (Inl DeliveryError,
      snd (pollOpportunities (example_env (JArr [opp1, opp2, opp3]) (\<lambda>i. i = 0)) example_state)) \<and>
   cursors (snd (pollOpportunities (example_env (JArr [opp1, opp2, opp3]) (\<lambda>i. i = 0)) example_state)) =
     cursors example_state \<and>
   deliveries (snd (pollOpportunities (example_env (JArr [opp1, opp2, opp3]) (\<lambda>i. i = 0)) example_state))
     ''opportunity:1:2024-01-02T00:00:00Z'' = Some ''2024-06-01T00:00:00.000Z'' \<and>
   deliveries (snd (pollOpportunities (example_env (JArr [opp1, opp2, opp3]) (\<lambda>i. i = 0)) example_state))
     ''opportunity:2:2024-01-03T00:00:00Z'' = None \<and>
   (\<exists>pre x post.
      [opp1, opp2, opp3] = pre @ x # post \<and>
      dom (deliveries (snd (pollOpportunities (example_env (JArr [opp1, opp2, opp3]) (\<lambda>i. i = 0)) example_state))) =
        dom (deliveries example_state) \<union>
        set (keys_of (example_env (JArr [opp1, opp2, opp3]) (\<lambda>i. i = 0)) pre
              (JStr (since_of (example_env (JArr [opp1, opp2, opp3]) (\<lambda>i. i = 0)) example_state))
              (snd (five_minutes_ago (example_env (JArr [opp1, opp2, opp3]) (\<lambda>i. i = 0)) example_state))))"
proof -
  let ?env = "example_env (JArr [opp1, opp2, opp3]) (\<lambda>i. i = 0)"
  let ?st' = "snd (pollOpportunities ?env example_state)"
  have "fst (pollOpportunities ?env example_state) = Inl DeliveryError"
    by (simp add: example_defs)
  then have r: "pollOpportunities ?env example_state = (Inl DeliveryError, ?st')"
    by (metis prod.collapse)
  have g: "client_get ?env (buildUpdatedSinceParams (since_of ?env example_state)) = Some (JArr [opp1, opp2, opp3])"
    by (simp add: example_env_def)
  have i: "iterate (opportunities_of (JArr [opp1, opp2, opp3])) = Some [opp1, opp2, opp3]"
    by (simp add: opportunities_of_def opt_member_def js_or_def)
  have m: "deliveries ?st' ''opportunity:1:2024-01-02T00:00:00Z'' = Some ''2024-06-01T00:00:00.000Z''"
    "deliveries ?st' ''opportunity:2:2024-01-03T00:00:00Z'' = None"
    by (simp_all add: example_defs)
  from partial_cycle [OF r] g i r m show ?thesis by auto
qed

subsection \<open>C4: the shapes of the response body\<close>

text \<open>
  Claim C4 says that every shape of the response body yields a sequence of records. An
  object body that has neither a truthy \<open>opportunities\<close> nor a truthy \<open>data\<close> member is
  taken as the sequence itself; it is not iterable, and the cycle stops with a TypeError
  before the first record.
\<close>

theorem unknown_shape_counterexample:
  "iterate (opportunities_of (JObj [(''items'', JArr [opp1])])) = None \<and>
   pollOpportunities (example_env (JObj [(''items'', JArr [opp1])]) (\<lambda>i. True)) example_state =
     (Inl TypeError, example_state\<lparr>ticks := 1\<rparr>)"
  by (simp add: example_defs)

text \<open>
  Claim C4, amended. A list under \<open>opportunities\<close>, a list under \<open>data\<close> when
  \<open>opportunities\<close> is missing or falsy, and a body that is itself a list are iterated
  as they are, in order; a falsy body (\<open>null\<close>, \<open>undefined\<close>, the empty string, 0,
  \<open>false\<close>) gives the empty sequence. An object body with neither member truthy gives
  no sequence, and a cycle whose body gives no sequence fails with a TypeError, having
  done nothing but read the clock: cursor, ledger and outbound calls are untouched.
\<close>

theorem response_shapes:
  "(own kvs ''opportunities'' = JArr xs \<longrightarrow> iterate (opportunities_of (JObj kvs)) = Some xs) \<and>
   (\<not> truthy (own kvs ''opportunities'') \<and> own kvs ''data'' = JArr xs \<longrightarrow>
      iterate (opportunities_of (JObj kvs)) = Some xs) \<and>
   iterate (opportunities_of (JArr xs)) = Some xs \<and>
   (\<not> truthy v \<longrightarrow> iterate (opportunities_of v) = Some []) \<and>
   (\<not> truthy (own kvs ''opportunities'') \<and> \<not> truthy (own kvs ''data'') \<longrightarrow>
      iterate (opportunities_of (JObj kvs)) = None) \<and>
   (currentClient env \<and> client_get env (buildUpdatedSinceParams (since_of env st)) = Some d \<and>
    iterate (opportunities_of d) = None \<longrightarrow>
      pollOpportunities env st = (Inl TypeError, st\<lparr>ticks := Suc (ticks st)\<rparr>))"
proof -
  have a: "iterate (opportunities_of (JObj kvs)) = Some xs" if "own kvs ''opportunities'' = JArr xs"
    using that by (simp add: opportunities_of_def opt_member_def js_or_def)
  have b: "iterate (opportunities_of (JObj kvs)) = Some xs"
    if "\<not> truthy (own kvs ''opportunities'') \<and> own kvs ''data'' = JArr xs"
    using that by (simp add: opportunities_of_def opt_member_def js_or_def)
  have c: "iterate (opportunities_of (JArr xs)) = Some xs"
    by (simp add: opportunities_of_def opt_member_def js_or_def)
  have e: "iterate (opportunities_of v) = Some []" if "\<not> truthy v"
    using that by (cases v) (simp_all add: opportunities_of_def opt_member_def js_or_def)
  have f: "iterate (opportunities_of (JObj kvs)) = None"
    if "\<not> truthy (own kvs ''opportunities'') \<and> \<not> truthy (own kvs ''data'')"
    using that by (simp add: opportunities_of_def opt_member_def js_or_def)
  have g: "pollOpportunities env st = (Inl TypeError, st\<lparr>ticks := Suc (ticks st)\<rparr>)"
    if "currentClient env \<and> client_get env (buildUpdatedSinceParams (since_of env st)) = Some d \<and>
    iterate (opportunities_of d) = None"
    using that by (simp add: pollOpportunities_def since_of_def Let_def five_minutes_ago_def)
  from a b c e f g show ?thesis by blast
qed

theorem response_shapes_witness:
  "iterate (opportunities_of (JObj [(''opportunities'', JArr [opp1, opp2]), (''meta'', JNull)])) =
     Some [opp1, opp2] \<and>
   iterate (opportunities_of (JObj [(''data'', JArr [opp2, opp1])])) = Some [opp2, opp1] \<and>
   iterate (opportunities_of (JArr [opp1])) = Some [opp1] \<and>
   iterate (opportunities_of JNull) = Some [] \<and>
   iterate (opportunities_of (JObj [(''items'', JArr [opp1])])) = None \<and>
   pollOpportunities (example_env (JObj [(''items'', JArr [opp1])]) (\<lambda>i. True)) example_state =
     (Inl TypeError, example_state\<lparr>ticks := Suc (ticks example_state)\<rparr>)"
proof -
  let ?k1 = "[(''opportunities'', JArr [opp1, opp2]), (''meta'', JNull)]"
  let ?k2 = "[(''data'', JArr [opp2, opp1])]"
  let ?k3 = "[(''items'', JArr [opp1])]"
  let ?env = "example_env (JObj ?k3) (\<lambda>i. True)"
  have h1: "own ?k1 ''opportunities'' = JArr [opp1, opp2]" by (simp add: own_def)
  have h2: "\<not> truthy (own ?k2 ''opportunities'') \<and> own ?k2 ''data'' = JArr [opp2, opp1]"
    by (simp add: own_def)
  have h4: "\<not> truthy JNull" by simp
  have h5: "\<not> truthy (own ?k3 ''opportunities'') \<and> \<not> truthy (own ?k3 ''data'')"
    by (simp add: own_def)
  have c1: "iterate (opportunities_of (JObj ?k1)) = Some [opp1, opp2]"
    using response_shapes [of ?k1 "[opp1, opp2]"] h1 by blast
  have c2: "iterate (opportunities_of (JObj ?k2)) = Some [opp2, opp1]"
    using response_shapes [of ?k2 "[opp2, opp1]"] h2 by blast
  have c3: "iterate (opportunities_of (JArr [opp1])) = Some [opp1]"
    using response_shapes [where xs = "[opp1]"] by blast
  have c4: "iterate (opportunities_of JNull) = Some []"
    using response_shapes [where v = JNull] h4 by blast
  have c5: "iterate (opportunities_of (JObj ?k3)) = None"
    using response_shapes [where kvs = ?k3] h5 by blast
  have h6: "currentClient ?env \<and>
      client_get ?env (buildUpdatedSinceParams (since_of ?env example_state)) = Some (JObj ?k3)"
    by (simp add: example_env_def currentClient_def)
  have c6: "pollOpportunities ?env example_state =
     (Inl TypeError, example_state\<lparr>ticks := Suc (ticks example_state)\<rparr>)"
    using response_shapes [where d = "JObj ?k3" and env = ?env and st = example_state] h6 c5 by blast
  from c1 c2 c3 c4 c5 c6 show ?thesis by blast
qed

subsection \<open>C5: without a subscriber a record is marked and nothing is sent\<close>

text \<open>
  Claim C5. When no webhook URL is registered for \<open>opportunity.updated\<close>, the turn of
  the loop for a record completes, makes no outbound POST and leaves the record's
  idempotency key in the ledger; and a whole cycle makes no outbound POST and cannot
  fail on a delivery.
\<close>

theorem no_subscriber_still_marks:
  assumes "getHook st ''opportunity.updated'' = None"
  shows "(body_key env opp st = Some key \<longrightarrow>
       (\<exists>n' st'. loop_body env opp n st = (Inr n', st') \<and> posts st' = posts st \<and>
          deliveries st' key \<noteq> None)) \<and>
     (\<forall>r st'. pollOpportunities env st = (r, st') \<longrightarrow>
        posts st' = posts st \<and> r \<noteq> Inl DeliveryError)"
proof -
  have turn: "body_key env opp st = Some key \<longrightarrow>
       (\<exists>n' st'. loop_body env opp n st = (Inr n', st') \<and> posts st' = posts st \<and>
          deliveries st' key \<noteq> None)"
    using loop_body_no_hook [OF assms] by blast
  have cycle: "posts st' = posts st \<and> r \<noteq> Inl DeliveryError"
    if p: "pollOpportunities env st = (r, st')" for r st'
  proof -
    let ?st0 = "snd (five_minutes_ago env st)"
    have h0: "getHook ?st0 ''opportunity.updated'' = None"
      using assms by (simp add: getHook_def five_minutes_ago_tables)
    show ?thesis
    proof (cases r)
      case (Inl e)
      with p have "pollOpportunities env st = (Inl e, st')" by simp
      from poll_Inl [OF this] Inl show ?thesis
        by (auto simp: five_minutes_ago_tables dest!: for_of_no_hook [OF h0])
    next
      case (Inr u)
      with p have "pollOpportunities env st = (Inr u, st')" by simp
      from poll_Inr [OF this] obtain opps n' st1 c where
        f: "for_of env opps (JStr (since_of env st)) ?st0 = (Inr n', st1)"
           "st' = setCursor cursorName c st1"
        by blast
      from for_of_no_hook [OF h0 f(1)] f(2) Inr show ?thesis
        by (simp add: setCursor_def five_minutes_ago_tables)
    qed
  qed
  from turn cycle show ?thesis by blast
qed

theorem no_subscriber_still_marks_witness:
  "getHook (example_state\<lparr>hooks := Map.empty\<rparr>) ''opportunity.updated'' = None \<and>
   body_key (example_env (JArr [opp1]) (\<lambda>i. False)) opp1 (example_state\<lparr>hooks := Map.empty\<rparr>) =
     Some ''opportunity:1:2024-01-02T00:00:00Z'' \<and>
   (\<exists>n' st'. loop_body (example_env (JArr [opp1]) (\<lambda>i. False)) opp1 (JStr ''2024-01-01T00:00:00Z'')
        (example_state\<lparr>hooks := Map.empty\<rparr>) = (Inr n', st') \<and>
      posts st' = [] \<and> deliveries st' ''opportunity:1:2024-01-02T00:00:00Z'' \<noteq> None) \<and>
   posts (snd (pollOpportunities (example_env (JArr [opp1]) (\<lambda>i. False)) (example_state\<lparr>hooks := Map.empty\<rparr>))) = [] \<and>
   fst (pollOpportunities (example_env (JArr [opp1]) (\<lambda>i. False)) (example_state\<lparr>hooks := Map.empty\<rparr>)) = Inr ()"
proof -
  let ?env = "example_env (JArr [opp1]) (\<lambda>i. False)"
  let ?st = "example_state\<lparr>hooks := Map.empty\<rparr>"
  have h: "getHook ?st ''opportunity.updated'' = None" by (simp add: example_defs)
  have k: "body_key ?env opp1 ?st = Some ''opportunity:1:2024-01-02T00:00:00Z''"
    by (simp add: body_key_def body_occurredAt_def example_defs)
  have p: "posts ?st = []" by (simp add: example_defs)
  have r: "fst (pollOpportunities ?env ?st) = Inr ()" by (simp add: example_defs)
  from no_subscriber_still_marks [OF h, of ?env opp1 "''opportunity:1:2024-01-02T00:00:00Z''"
      "JStr ''2024-01-01T00:00:00Z''"]
  have "\<exists>n' st'. loop_body ?env opp1 (JStr ''2024-01-01T00:00:00Z'') ?st = (Inr n', st') \<and>
      posts st' = posts ?st \<and> deliveries st' ''opportunity:1:2024-01-02T00:00:00Z'' \<noteq> None"
    and "posts (snd (pollOpportunities ?env ?st)) = posts ?st"
    using k by (blast, metis prod.collapse)
  with h k r show ?thesis unfolding p by simp
qed

subsection \<open>C6: the resolved timestamp of a record\<close>

text \<open>
  Claim C6 says that the resolved timestamp is the first alias field that is present.
  The code takes the first alias whose value is truthy: for the record \<open>opp4\<close>, whose
  field \<open>updated_at\<close> is present and holds the empty string, the first present field
  gives the empty string, and the code resolves the value of \<open>updatedAt\<close>.
\<close>

theorem first_present_counterexample:
  "present opp4 ''updated_at'' \<and>
   spec_occurredAt (example_env (JArr [opp4]) (\<lambda>i. True)) opp4 example_state = JStr [] \<and>
   body_occurredAt (example_env (JArr [opp4]) (\<lambda>i. True)) opp4 example_state =
     Some (JStr ''2024-05-01T00:00:00Z'') \<and>
   body_occurredAt (example_env (JArr [opp4]) (\<lambda>i. True)) opp4 example_state \<noteq>
     Some (spec_occurredAt (example_env (JArr [opp4]) (\<lambda>i. True)) opp4 example_state)"
  by (simp add: present_def spec_occurredAt_def body_occurredAt_def example_defs)

text \<open>
  Claim C6, amended. For a record with the alias values \<open>a\<close> (\<open>updated_at\<close>), \<open>b\<close>
  (\<open>updatedAt\<close>) and \<open>c\<close> (\<open>updated\<close>), \<open>undefined\<close> standing for a missing field, the
  resolved \<open>updatedAt\<close> is the first of them that is truthy, in this order; the value
  found this way is the event timestamp \<open>occurredAt\<close>; and when none of the three is
  truthy, \<open>occurredAt\<close> is the reading of the clock.
\<close>

theorem first_truthy_alias:
  assumes "member_js opp ''updated_at'' = Some a"
    and "member_js opp ''updatedAt'' = Some b"
    and "member_js opp ''updated'' = Some c"
  shows "updatedAt_of opp = Some (if truthy a then a else if truthy b then b else c) \<and>
     (truthy a \<longrightarrow> body_occurredAt env opp st = Some a) \<and>
     (\<not> truthy a \<and> truthy b \<longrightarrow> body_occurredAt env opp st = Some b) \<and>
     (\<not> truthy a \<and> \<not> truthy b \<and> truthy c \<longrightarrow> body_occurredAt env opp st = Some c) \<and>
     (\<not> truthy a \<and> \<not> truthy b \<and> \<not> truthy c \<longrightarrow>
        body_occurredAt env opp st = Some (JStr (toISOString env (clock env (ticks st)))))"
proof -
  have u: "updatedAt_of opp = Some (if truthy a then a else if truthy b then b else c)"
    using assms by (simp add: updatedAt_of_def)
  show ?thesis
    using u by (auto simp: body_occurredAt_def occurredAt_of_def now_iso_def)
qed

theorem first_truthy_alias_witness:
  "member_js opp4 ''updated_at'' = Some (JStr []) \<and>
   member_js opp4 ''updatedAt'' = Some (JStr ''2024-05-01T00:00:00Z'') \<and>
   member_js opp4 ''updated'' = Some JUndefined \<and>
   updatedAt_of opp4 = Some (JStr ''2024-05-01T00:00:00Z'') \<and>
   body_occurredAt (example_env (JArr [opp4]) (\<lambda>i. True)) opp4 example_state =
     Some (JStr ''2024-05-01T00:00:00Z'') \<and>
   member_js opp3 ''updated_at'' = Some JUndefined \<and>
   member_js opp3 ''updatedAt'' = Some JUndefined \<and>
   member_js opp3 ''updated'' = Some JUndefined \<and>
   body_occurredAt (example_env (JArr [opp3]) (\<lambda>i. True)) opp3 example_state =
     Some (JStr ''2024-06-01T00:00:00.000Z'')"
proof -
  have a: "member_js opp4 ''updated_at'' = Some (JStr [])"
    and b: "member_js opp4 ''updatedAt'' = Some (JStr ''2024-05-01T00:00:00Z'')"
    and c: "member_js opp4 ''updated'' = Some JUndefined"
    by (simp_all add: opp4_def own_def)
  have a3: "member_js opp3 ''updated_at'' = Some JUndefined"
    and b3: "member_js opp3 ''updatedAt'' = Some JUndefined"
    and c3: "member_js opp3 ''updated'' = Some JUndefined"
    by (simp_all add: opp3_def own_def)
  have ck: "toISOString (example_env (JArr [opp3]) (\<lambda>i. True))
      (clock (example_env (JArr [opp3]) (\<lambda>i. True)) (ticks example_state)) = ''2024-06-01T00:00:00.000Z''"
    by (simp add: example_env_def)
  from first_truthy_alias [OF a b c, of "example_env (JArr [opp4]) (\<lambda>i. True)" example_state]
  have one: "updatedAt_of opp4 = Some (JStr ''2024-05-01T00:00:00Z'')"
    "body_occurredAt (example_env (JArr [opp4]) (\<lambda>i. True)) opp4 example_state =
       Some (JStr ''2024-05-01T00:00:00Z'')"
    by simp_all
  from first_truthy_alias [OF a3 b3 c3, of "example_env (JArr [opp3]) (\<lambda>i. True)" example_state]
  have two: "body_occurredAt (example_env (JArr [opp3]) (\<lambda>i. True)) opp3 example_state =
     Some (JStr ''2024-06-01T00:00:00.000Z'')"
    unfolding ck by simp
  from a b c a3 b3 c3 one two show ?thesis by simp
qed

subsection \<open>C7: the form of the idempotency key\<close>

text \<open>
  Claim C7. For a record whose \<open>id\<close> converts to the string \<open>ids\<close> and whose resolved
  timestamp \<open>occ\<close> converts to the string \<open>os\<close> (a string timestamp is its own string),
  the idempotency key the loop computes is the concatenation \<open>opportunity:ids:os\<close>. It
  is this string that the envelope of the POST carries and that a completed turn leaves
  in the ledger.
\<close>

theorem idempotency_key_format:
  assumes "member_js opp ''id'' = Some i" and "js_toString i = Some ids"
    and "body_occurredAt env opp st = Some occ" and "js_toString occ = Some os"
  shows "body_key env opp st = Some (''opportunity:'' @ ids @ '':'' @ os) \<and>
     (\<forall>n r st'. loop_body env opp n st = (r, st') \<longrightarrow>
        (posts st' = posts st \<or>
         (\<exists>url. posts st' =
            posts st @ [(url, envelope opp occ (''opportunity:'' @ ids @ '':'' @ os))])) \<and>
        (\<forall>n'. r = Inr n' \<longrightarrow>
           dom (deliveries st') = insert (''opportunity:'' @ ids @ '':'' @ os) (dom (deliveries st))))"
proof -
  have k: "body_key env opp st = Some (''opportunity:'' @ ids @ '':'' @ os)"
    using assms by (simp add: body_key_def idempotencyKey_def)
  show ?thesis
  proof (intro conjI allI impI)
    show "body_key env opp st = Some (''opportunity:'' @ ids @ '':'' @ os)" by (rule k)
  next
    fix n r st'
    assume b: "loop_body env opp n st = (r, st')"
    from loop_body_posts [OF b] k assms(3)
    show "posts st' = posts st \<or>
         (\<exists>url. posts st' =
            posts st @ [(url, envelope opp occ (''opportunity:'' @ ids @ '':'' @ os))])"
      by auto
  next
    fix n r st' n'
    assume b: "loop_body env opp n st = (r, st')" and r: "r = Inr n'"
    from loop_body_Inr_dom [of env opp n st n' st'] b r k
    show "dom (deliveries st') = insert (''opportunity:'' @ ids @ '':'' @ os) (dom (deliveries st))"
      by auto
  qed
qed

theorem idempotency_key_format_witness:
  "member_js opp1 ''id'' = Some (JNum 1) \<and> js_toString (JNum 1) = Some ''1'' \<and>
   body_occurredAt (example_env (JArr [opp1]) (\<lambda>i. True)) opp1 example_state =
     Some (JStr ''2024-01-02T00:00:00Z'') \<and>
   js_toString (JStr ''2024-01-02T00:00:00Z'') = Some ''2024-01-02T00:00:00Z'' \<and>
   body_key (example_env (JArr [opp1]) (\<lambda>i. True)) opp1 example_state =
     Some ''opportunity:1:2024-01-02T00:00:00Z'' \<and>
   dom (deliveries (snd (loop_body (example_env (JArr [opp1]) (\<lambda>i. True)) opp1
       (JStr ''2024-01-01T00:00:00Z'') example_state))) =
     {''opportunity:1:2024-01-02T00:00:00Z''}"
proof -
  let ?env = "example_env (JArr [opp1]) (\<lambda>i. True)"
  let ?n = "JStr ''2024-01-01T00:00:00Z''"
  have a: "member_js opp1 ''id'' = Some (JNum 1)" by (simp add: opp1_def own_def)
  have b: "js_toString (JNum 1) = Some ''1''" by (simp add: dec_int_def dec.simps)
  have c: "body_occurredAt ?env opp1 example_state = Some (JStr ''2024-01-02T00:00:00Z'')"
    by (simp add: body_occurredAt_def example_defs)
  have t: "js_toString (JStr ''2024-01-02T00:00:00Z'') = Some ''2024-01-02T00:00:00Z''" by simp
  have r: "fst (loop_body ?env opp1 ?n example_state) = Inr (JStr ''2024-01-02T00:00:00Z'')"
    by (simp add: example_defs)
  then have r': "loop_body ?env opp1 ?n example_state =
      (Inr (JStr ''2024-01-02T00:00:00Z''), snd (loop_body ?env opp1 ?n example_state))"
    by (metis prod.collapse)
  have d: "dom (deliveries example_state) = {}" by (simp add: example_state_def)
  from idempotency_key_format [OF a b c t]
  have "body_key ?env opp1 example_state = Some (''opportunity:'' @ ''1'' @ '':'' @ ''2024-01-02T00:00:00Z'')"
    and "dom (deliveries (snd (loop_body ?env opp1 ?n example_state))) =
      insert (''opportunity:'' @ ''1'' @ '':'' @ ''2024-01-02T00:00:00Z'') (dom (deliveries example_state))"
    using r' by blast+
  with a b c t d show ?thesis by simp
qed

subsection \<open>C8: the registration endpoint\<close>

text \<open>
  Claim C8. A registration request whose body is an object with a string \<open>event\<close> and a
  string \<open>url\<close> that passes the URL check is answered with status 200, and the hooks
  table maps the event to the URL afterwards, whatever it held for that event before. A
  body that is not an object, or whose \<open>event\<close> is not a string, or whose \<open>url\<close> is not
  a string or fails the URL check, is answered with status 400 and the store is left as
  it was.
\<close>

theorem registration_endpoint:
  "(b = JObj kvs \<and> own kvs ''event'' = JStr e \<and> own kvs ''url'' = JStr u \<and> url_valid env u \<longrightarrow>
      hooks_register env b st =
        (\<lparr>status = 200, body = JObj [(''ok'', JBool True)]\<rparr>, st\<lparr>hooks := (hooks st)(e \<mapsto> u)\<rparr>)) \<and>
   ((\<forall>kvs. b \<noteq> JObj kvs) \<or>
    (\<exists>kvs. b = JObj kvs \<and>
       ((\<forall>e. own kvs ''event'' \<noteq> JStr e) \<or> (\<forall>u. own kvs ''url'' \<noteq> JStr u) \<or>
        (\<exists>u. own kvs ''url'' = JStr u \<and> \<not> url_valid env u))) \<longrightarrow>
      hooks_register env b st =
        (\<lparr>status = 400, body = JObj [(''error'', JStr ''Invalid request body'')]\<rparr>, st))"
proof -
  have ok: "hooks_register env b st =
        (\<lparr>status = 200, body = JObj [(''ok'', JBool True)]\<rparr>, st\<lparr>hooks := (hooks st)(e \<mapsto> u)\<rparr>)"
    if "b = JObj kvs \<and> own kvs ''event'' = JStr e \<and> own kvs ''url'' = JStr u \<and> url_valid env u"
    using that by (simp add: hooks_register_def safeParse_def setHook_def)
  have bad: "hooks_register env b st =
        (\<lparr>status = 400, body = JObj [(''error'', JStr ''Invalid request body'')]\<rparr>, st)"
    if "(\<forall>kvs. b \<noteq> JObj kvs) \<or>
    (\<exists>kvs. b = JObj kvs \<and>
       ((\<forall>e. own kvs ''event'' \<noteq> JStr e) \<or> (\<forall>u. own kvs ''url'' \<noteq> JStr u) \<or>
        (\<exists>u. own kvs ''url'' = JStr u \<and> \<not> url_valid env u)))"
  proof -
    have "safeParse env b = None"
      using that by (auto simp: safeParse_def split: jsval.splits)
    then show ?thesis by (simp add: hooks_register_def)
  qed
  from ok bad show ?thesis by blast
qed

theorem registration_endpoint_witness:
  "url_valid (example_env JNull (\<lambda>i. True)) ''https://hooks.example/new'' \<and>
   \<not> url_valid (example_env JNull (\<lambda>i. True)) ''not-a-url'' \<and>
   hooks_register (example_env JNull (\<lambda>i. True))
     (JObj [(''event'', JStr ''opportunity.updated''), (''url'', JStr ''https://hooks.example/new'')])
     example_state =
     (\<lparr>status = 200, body = JObj [(''ok'', JBool True)]\<rparr>,
      example_state\<lparr>hooks := (hooks example_state)(''opportunity.updated'' \<mapsto> ''https://hooks.example/new'')\<rparr>) \<and>
   hooks_register (example_env JNull (\<lambda>i. True))
     (JObj [(''event'', JStr ''opportunity.updated''), (''url'', JStr ''not-a-url'')])
     example_state =
     (\<lparr>status = 400, body = JObj [(''error'', JStr ''Invalid request body'')]\<rparr>, example_state)"
proof -
  let ?env = "example_env JNull (\<lambda>i. True)"
  let ?good = "[(''event'', JStr ''opportunity.updated''), (''url'', JStr ''https://hooks.example/new'')]"
  let ?bad = "[(''event'', JStr ''opportunity.updated''), (''url'', JStr ''not-a-url'')]"
  have v: "url_valid ?env ''https://hooks.example/new''" by (simp add: example_env_def)
  have n: "\<not> url_valid ?env ''not-a-url''" by (simp add: example_env_def)
  have g: "own ?good ''event'' = JStr ''opportunity.updated''" "own ?good ''url'' = JStr ''https://hooks.example/new''"
    by (simp_all add: own_def)
  have w: "own ?bad ''url'' = JStr ''not-a-url''" by (simp add: own_def)
  from registration_endpoint [of "JObj ?good" ?good "''opportunity.updated''" "''https://hooks.example/new''" ?env example_state]
    g v
  have one: "hooks_register ?env (JObj ?good) example_state =
     (\<lparr>status = 200, body = JObj [(''ok'', JBool True)]\<rparr>,
      example_state\<lparr>hooks := (hooks example_state)(''opportunity.updated'' \<mapsto> ''https://hooks.example/new'')\<rparr>)"
    by blast
  from registration_endpoint [of "JObj ?bad" _ _ _ ?env example_state] w n
  have two: "hooks_register ?env (JObj ?bad) example_state =
     (\<lparr>status = 400, body = JObj [(''error'', JStr ''Invalid request body'')]\<rparr>, example_state)"
    by blast
  from v n one two show ?thesis by blast
qed

subsection \<open>C9: a batch that is skipped whole still moves the cursor to the running maximum\<close>

text \<open>
  Claim C9 says that a successful cycle advances the cursor to the batch's maximum
  timestamp even when every record is skipped. The running maximum starts at the cursor
  read: with the cursor \<open>2024-02-01T00:00:00Z\<close> stored and the batch \<open>opp1, opp2\<close>, both
  in the ledger already, the cycle completes, posts nothing, inserts nothing, and the
  cursor stays where it was, ahead of the batch's maximum \<open>2024-01-03T00:00:00Z\<close>.
\<close>

theorem cursor_ahead_counterexample:
  "pollOpportunities (example_env (JArr [opp1, opp2]) (\<lambda>i. False)) example_ahead =
     (Inr (), snd (pollOpportunities (example_env (JArr [opp1, opp2]) (\<lambda>i. False)) example_ahead)) \<and>
   posts (snd (pollOpportunities (example_env (JArr [opp1, opp2]) (\<lambda>i. False)) example_ahead)) = [] \<and>
   deliveries (snd (pollOpportunities (example_env (JArr [opp1, opp2]) (\<lambda>i. False)) example_ahead)) =
     deliveries example_ahead \<and>
   Max (set (stamps [opp1, opp2])) = ''2024-01-03T00:00:00Z'' \<and>
   cursors (snd (pollOpportunities (example_env (JArr [opp1, opp2]) (\<lambda>i. False)) example_ahead)) cursorName =
     Some ''2024-02-01T00:00:00Z''"
  by (simp add: stamps_Cons stamps_Nil stamp_of_def max_def example_defs)

text \<open>
  Claim C9, amended. The running maximum is updated before the already-delivered check.
  So when every record of the batch carries a timestamp and is skipped because its key
  is in the ledger, the loop completes without a POST and without a ledger insert, and
  the cycle binds to \<open>setCursor\<close> the running maximum of its comparisons: it completes
  with that value stored when the store takes it, and fails with the store's exception
  otherwise. When the timestamps of the batch are strings, the cycle completes and the
  cursor it persists is the greatest of the cursor read and the batch's timestamps:
  the batch's maximum timestamp, when that is not older than the cursor read.
\<close>

theorem skipped_batch_advances_cursor:
  assumes "currentClient env"
    and "client_get env (buildUpdatedSinceParams (since_of env st)) = Some d"
    and "iterate (opportunities_of d) = Some opps"
    and "\<forall>opp \<in> set opps. \<exists>u key. updatedAt_of opp = Some u \<and> truthy u \<and>
      idempotencyKey opp u = Some key \<and> deliveries st key \<noteq> None"
  shows "\<exists>n'. running_max env (JStr (since_of env st)) opps = Some n' \<and>
      (\<forall>c. bind_text env n' = Some c \<longrightarrow>
         pollOpportunities env st =
           (Inr (), setCursor cursorName c (snd (five_minutes_ago env st)))) \<and>
      (bind_text env n' = None \<longrightarrow>
         pollOpportunities env st = (Inl StoreError, snd (five_minutes_ago env st))) \<and>
      (string_stamps opps \<longrightarrow>
         (\<exists>st'. pollOpportunities env st = (Inr (), st') \<and>
            posts st' = posts st \<and> deliveries st' = deliveries st \<and>
            cursors st' cursorName = Some (Max (insert (since_of env st) (set (stamps opps)))) \<and>
            (stamps opps \<noteq> [] \<and> since_of env st \<le> Max (set (stamps opps)) \<longrightarrow>
               cursors st' cursorName = Some (Max (set (stamps opps))))))"
proof -
  let ?st0 = "snd (five_minutes_ago env st)"
  let ?since = "since_of env st"
  let ?m = "Max (insert ?since (set (stamps opps)))"
  have "\<forall>opp \<in> set opps. \<exists>u key. updatedAt_of opp = Some u \<and> truthy u \<and>
      idempotencyKey opp u = Some key \<and> deliveries ?st0 key \<noteq> None"
    using assms(4) by (simp add: five_minutes_ago_tables)
  from for_of_all_skipped [OF this, of env "JStr ?since"] obtain n' where
    n': "running_max env (JStr ?since) opps = Some n'"
    and f: "for_of env opps (JStr ?since) ?st0 = (Inr n', ?st0)"
    by blast
  have stored: "pollOpportunities env st = (Inr (), setCursor cursorName c ?st0)"
    if "bind_text env n' = Some c" for c
    using assms(1,2,3) f that by (simp add: pollOpportunities_def since_of_def Let_def)
  have refused: "pollOpportunities env st = (Inl StoreError, ?st0)"
    if "bind_text env n' = None"
    using assms(1,2,3) f that by (simp add: pollOpportunities_def since_of_def Let_def)
  have strings: "\<exists>st'. pollOpportunities env st = (Inr (), st') \<and>
            posts st' = posts st \<and> deliveries st' = deliveries st \<and>
            cursors st' cursorName = Some ?m \<and>
            (stamps opps \<noteq> [] \<and> ?since \<le> Max (set (stamps opps)) \<longrightarrow>
               cursors st' cursorName = Some (Max (set (stamps opps))))"
    if s: "string_stamps opps"
  proof -
    have "n' = JStr ?m" by (rule running_max_strings [OF s n'])
    then have "bind_text env n' = Some ?m" by (simp add: bind_text_def)
    then have p: "pollOpportunities env st = (Inr (), setCursor cursorName ?m ?st0)"
      by (rule stored)
    have m: "stamps opps \<noteq> [] \<Longrightarrow> ?since \<le> Max (set (stamps opps)) \<Longrightarrow> ?m = Max (set (stamps opps))"
      by (simp add: max_def)
    show ?thesis
      using p m by (simp add: setCursor_def five_minutes_ago_tables)
  qed
  show ?thesis
  proof (rule exI [of _ n'], intro conjI allI impI)
    show "running_max env (JStr ?since) opps = Some n'" by (rule n')
  next
    fix c
    assume "bind_text env n' = Some c"
    then show "pollOpportunities env st = (Inr (), setCursor cursorName c ?st0)"
      by (rule stored)
  next
    assume "bind_text env n' = None"
    then show "pollOpportunities env st = (Inl StoreError, ?st0)"
      by (rule refused)
  next
    assume "string_stamps opps"
    then show "\<exists>st'. pollOpportunities env st = (Inr (), st') \<and>
            posts st' = posts st \<and> deliveries st' = deliveries st \<and>
            cursors st' cursorName = Some ?m \<and>
            (stamps opps \<noteq> [] \<and> ?since \<le> Max (set (stamps opps)) \<longrightarrow>
               cursors st' cursorName = Some (Max (set (stamps opps))))"
      by (rule strings)
  qed
qed

theorem skipped_batch_advances_cursor_witness:
  "\<exists>st'. pollOpportunities (example_env (JArr [opp1, opp2]) (\<lambda>i. True)) example_relayed = (Inr (), st') \<and>
      posts st' = [] \<and> deliveries st' = deliveries example_relayed \<and>
      cursors st' cursorName = Some ''2024-01-03T00:00:00Z''"
proof -
  let ?env = "example_env (JArr [opp1, opp2]) (\<lambda>i. True)"
  have a: "currentClient ?env" by (simp add: example_defs)
  have b: "client_get ?env (buildUpdatedSinceParams (since_of ?env example_relayed)) = Some (JArr [opp1, opp2])"
    by (simp add: example_env_def)
  have c: "iterate (opportunities_of (JArr [opp1, opp2])) = Some [opp1, opp2]"
    by (simp add: example_defs)
  have d: "\<forall>opp \<in> set [opp1, opp2]. \<exists>u key. updatedAt_of opp = Some u \<and> truthy u \<and>
      idempotencyKey opp u = Some key \<and> deliveries example_relayed key \<noteq> None"
    by (simp add: example_defs)
  have g: "string_stamps [opp1, opp2]"
    by (simp add: string_stamps_def example_defs)
  have s: "since_of ?env example_relayed = ''2024-01-01T00:00:00Z''"
    by (simp add: example_defs)
  have t: "stamps [opp1, opp2] = [''2024-01-02T00:00:00Z'', ''2024-01-03T00:00:00Z'']"
    by (simp add: stamps_Cons stamps_Nil stamp_of_def example_defs)
  have p: "posts example_relayed = []" by (simp add: example_defs)
  from skipped_batch_advances_cursor [OF a b c d] g
  have "\<exists>st'. pollOpportunities ?env example_relayed = (Inr (), st') \<and>
      posts st' = posts example_relayed \<and> deliveries st' = deliveries example_relayed \<and>
      cursors st' cursorName =
        Some (Max (insert (since_of ?env example_relayed) (set (stamps [opp1, opp2]))))"
    by blast
  then show ?thesis
    unfolding s t p by (auto simp: max_def)
qed

subsection \<open>C10: a record without a timestamp never moves the cursor\<close>



end
